theory Spec2Isabelle
  imports Main "HOL-Library.Sublist" "HOL-Library.Char_ord" "HOL-Library.List_Lexorder"
    "HOL-Library.Multiset"
begin

section \<open>Awaited driver calls: results, errors and state\<close>

text \<open>
  Every page-object method of the repository is an \<^verbatim>\<open>async\<close> function that issues driver
  calls one after the other. A call either returns a value or rejects; a rejection that is
  not caught ends the method with that error. The browser side (the DOM, the registered
  listeners) is the state \<open>'s\<close> that each call receives and hands on.
\<close>

datatype error = TimeoutError | StrictModeViolation | Error string

type_synonym ('s, 'a) act = "'s \<Rightarrow> (error + 'a) \<times> 's"

definition ret :: "'a \<Rightarrow> ('s, 'a) act" where
  "ret x = (\<lambda>s. (Inr x, s))"

definition throw :: "error \<Rightarrow> ('s, 'a) act" where
  "throw e = (\<lambda>s. (Inl e, s))"

text \<open>\<open>await m f\<close> is \<^verbatim>\<open>const x = await m; f(x)\<close>: a rejection of \<open>m\<close> skips \<open>f\<close>.\<close>

definition await :: "('s, 'a) act \<Rightarrow> ('a \<Rightarrow> ('s, 'b) act) \<Rightarrow> ('s, 'b) act" where
  "await m f = (\<lambda>s. case m s of (Inl e, s') \<Rightarrow> (Inl e, s') | (Inr x, s') \<Rightarrow> f x s')"

text \<open>\<^verbatim>\<open>try { await m } catch {}\<close>: whatever \<open>m\<close> did to the state stays, its error is dropped.\<close>

definition try_catch :: "('s, 'a) act \<Rightarrow> ('s, unit) act" where
  "try_catch m = (\<lambda>s. case m s of (Inl e, s') \<Rightarrow> (Inr (), s') | (Inr x, s') \<Rightarrow> (Inr (), s'))"

section \<open>JavaScript strings and values\<close>

text \<open>
  A string is the list of its code units; \<open>char\<close> stands for a code unit below 256.
  \<^verbatim>\<open>hay.includes(needle)\<close> holds when \<open>needle\<close> occurs in \<open>hay\<close> at some position.
\<close>

fun js_includes :: "'a list \<Rightarrow> 'a list \<Rightarrow> bool" where
  "js_includes [] needle = (needle = [])"
| "js_includes (c # hay) needle = (prefix needle (c # hay) \<or> js_includes hay needle)"

text \<open>White space and line terminators that \<^verbatim>\<open>trim()\<close> strips, among the code units below 256.\<close>

definition is_ws :: "char \<Rightarrow> bool" where
  "is_ws c = (c \<in> set [CHR 0x09, CHR 0x0A, CHR 0x0B, CHR 0x0C, CHR 0x0D, CHR 0x20, CHR 0xA0])"

definition trim :: "string \<Rightarrow> string" where
  "trim s = rev (dropWhile is_ws (rev (dropWhile is_ws s)))"

text \<open>\<^verbatim>\<open>v || dflt\<close> for a value that is a string or null: null and the empty string are falsy.\<close>

definition or_else :: "string option \<Rightarrow> string \<Rightarrow> string" where
  "or_else v dflt = (case v of None \<Rightarrow> dflt | Some s \<Rightarrow> if s = [] then dflt else s)"

text \<open>What indexing an array of strings gives at run time: an element, or \<^verbatim>\<open>undefined\<close>.\<close>

datatype jsval = Undefined | Str string

definition js_index :: "string list \<Rightarrow> nat \<Rightarrow> jsval" where
  "js_index xs i = (if i < length xs then Str (xs ! i) else Undefined)"

section \<open>The table surface\<close>

text \<open>
  The part of the document that the locators of \<^verbatim>\<open>TablePage\<close> can reach: the header cells of
  \<^verbatim>\<open>table#table1\<close> and its body rows. A row is the sequence of its pieces in document
  order, a \<^verbatim>\<open>td\<close> cell with its text or anything else (white space between the cells, a
  \<^verbatim>\<open>th\<close>) with its text. A row may have no cell at all, and rows may differ in length.
\<close>

datatype node = Td string | Other string

fun node_text :: "node \<Rightarrow> string" where
  "node_text (Td t) = t"
| "node_text (Other t) = t"

fun row_cells :: "node list \<Rightarrow> string list" where
  "row_cells [] = []"
| "row_cells (Td t # ns) = t # row_cells ns"
| "row_cells (Other t # ns) = row_cells ns"

record table_dom =
  headers :: "string list"
  rows :: "node list list"

datatype element = ElTable table_dom | ElTh string | ElTr "node list" | ElTd string

fun text_of :: "element \<Rightarrow> string" where
  "text_of (ElTable d) = concat (headers d) @ concat (map (\<lambda>r. concat (map node_text r)) (rows d))"
| "text_of (ElTh t) = t"
| "text_of (ElTr ns) = concat (map node_text ns)"
| "text_of (ElTd t) = t"

text \<open>
  A locator is a query, not an element: the page's selector, a selector below another
  locator, or the n-th match of a locator (indices are 0-based naturals).
\<close>

datatype locator = Page string | Sub locator string | Nth locator nat

definition query :: "string \<Rightarrow> element \<Rightarrow> element list" where
  "query sel e =
     (case e of
        ElTable d \<Rightarrow>
          (if sel = ''thead th'' then map ElTh (headers d)
           else if sel = ''tbody tr'' then map ElTr (rows d)
           else if sel = ''tbody td'' \<or> sel = ''td''
             then concat (map (\<lambda>r. map ElTd (row_cells r)) (rows d))
           else [])
      | ElTr ns \<Rightarrow> (if sel = ''td'' then map ElTd (row_cells ns) else [])
      | _ \<Rightarrow> [])"

fun resolve :: "table_dom \<Rightarrow> locator \<Rightarrow> element list" where
  "resolve d (Page sel) = (if sel = ''table#table1'' then [ElTable d] else [])"
| "resolve d (Sub l sel) = concat (map (query sel) (resolve d l))"
| "resolve d (Nth l i) = (if i < length (resolve d l) then [resolve d l ! i] else [])"

text \<open>
  The driver's reads. \<^verbatim>\<open>count\<close>, \<^verbatim>\<open>all\<close> and \<^verbatim>\<open>allTextContents\<close> answer at once from
  what matches now. \<^verbatim>\<open>textContent\<close> is a locate-and-act call: it waits for the element, so
  a locator that matches nothing ends in a \<open>TimeoutError\<close>, and one that matches several
  elements is refused. Its declared result is a string or null.
\<close>

definition count :: "locator \<Rightarrow> (table_dom, int) act" where
  "count l = (\<lambda>d. (Inr (int (length (resolve d l))), d))"

definition all_matches :: "locator \<Rightarrow> (table_dom, locator list) act" where
  "all_matches l = (\<lambda>d. (Inr (map (Nth l) [0..<length (resolve d l)]), d))"

definition allTextContents :: "locator \<Rightarrow> (table_dom, string list) act" where
  "allTextContents l = (\<lambda>d. (Inr (map (\<lambda>e. or_else (Some (text_of e)) []) (resolve d l)), d))"

definition textContent :: "locator \<Rightarrow> (table_dom, string option) act" where
  "textContent l = (\<lambda>d. case resolve d l of
       [] \<Rightarrow> (Inl TimeoutError, d)
     | [e] \<Rightarrow> (Inr (Some (text_of e)), d)
     | _ \<Rightarrow> (Inl StrictModeViolation, d))"

subsection \<open>\<^verbatim>\<open>TablePage\<close>\<close>

record table_page =
  table :: locator
  tableHeaders :: locator
  tableRows :: locator
  tableCells :: locator

definition TablePage :: table_page where
  "TablePage =
     (let t = Page ''table#table1'' in
      \<lparr>table = t, tableHeaders = Sub t ''thead th'', tableRows = Sub t ''tbody tr'',
       tableCells = Sub t ''tbody td''\<rparr>)"

definition getRowCount :: "table_page \<Rightarrow> (table_dom, int) act" where
  "getRowCount tp = await (count (tableRows tp)) ret"

definition getColumnCount :: "table_page \<Rightarrow> (table_dom, int) act" where
  "getColumnCount tp = (let firstRow = Nth (tableRows tp) 0 in await (count (Sub firstRow ''td'')) ret)"

definition getHeaders :: "table_page \<Rightarrow> (table_dom, string list) act" where
  "getHeaders tp = await (allTextContents (tableHeaders tp)) ret"

definition getRow :: "table_page \<Rightarrow> nat \<Rightarrow> locator" where
  "getRow tp index = Nth (tableRows tp) index"

definition getCellText :: "table_page \<Rightarrow> nat \<Rightarrow> nat \<Rightarrow> (table_dom, string) act" where
  "getCellText tp rowIndex colIndex =
     (let row = getRow tp rowIndex; cell = Nth (Sub row ''td'') colIndex
      in await (textContent cell) (\<lambda>t. ret (or_else t [])))"

definition getRowData :: "table_page \<Rightarrow> nat \<Rightarrow> (table_dom, string list) act" where
  "getRowData tp rowIndex =
     (let row = getRow tp rowIndex
      in await (allTextContents (Sub row ''td'')) (\<lambda>cells. ret (map trim cells)))"

fun collectRows :: "locator list \<Rightarrow> string list list \<Rightarrow> (table_dom, string list list) act" where
  "collectRows [] data = ret data"
| "collectRows (row # rest) data =
     await (allTextContents (Sub row ''td'')) (\<lambda>cells. collectRows rest (data @ [map trim cells]))"

definition getAllTableData :: "table_page \<Rightarrow> (table_dom, string list list) act" where
  "getAllTableData tp = await (all_matches (tableRows tp)) (\<lambda>rs. collectRows rs [])"

function findRowIndexLoop ::
  "table_page \<Rightarrow> nat \<Rightarrow> string \<Rightarrow> nat \<Rightarrow> int \<Rightarrow> (table_dom, int) act" where
  "findRowIndexLoop tp columnIndex searchText i rowCount =
     (if int i < rowCount
      then await (getCellText tp i columnIndex)
             (\<lambda>cellText. if js_includes cellText searchText then ret (int i)
                          else findRowIndexLoop tp columnIndex searchText (Suc i) rowCount)
      else ret (- 1))"
  by pat_completeness auto
termination
  by (relation "measure (\<lambda>(tp, c, s, i, n). nat (n - int i))") auto

declare findRowIndexLoop.simps [simp del]

definition findRowIndexByCellContent :: "table_page \<Rightarrow> nat \<Rightarrow> string \<Rightarrow> (table_dom, int) act" where
  "findRowIndexByCellContent tp columnIndex searchText =
     await (getRowCount tp) (\<lambda>rowCount. findRowIndexLoop tp columnIndex searchText 0 rowCount)"

text \<open>\<^verbatim>\<open>rowText?.includes(searchText)\<close>: a null text is no match.\<close>

definition opt_includes :: "string option \<Rightarrow> string \<Rightarrow> bool" where
  "opt_includes t s = (case t of None \<Rightarrow> False | Some x \<Rightarrow> js_includes x s)"

function findRowLoop :: "locator list \<Rightarrow> string \<Rightarrow> nat \<Rightarrow> (table_dom, int) act" where
  "findRowLoop rs searchText i =
     (if i < length rs
      then await (textContent (rs ! i))
             (\<lambda>rowText. if opt_includes rowText searchText then ret (int i)
                         else findRowLoop rs searchText (Suc i))
      else ret (- 1))"
  by pat_completeness auto
termination
  by (relation "measure (\<lambda>(rs, s, i). length rs - i)") auto

declare findRowLoop.simps [simp del]

definition findRowByContent :: "table_page \<Rightarrow> string \<Rightarrow> (table_dom, int) act" where
  "findRowByContent tp searchText = await (all_matches (tableRows tp)) (\<lambda>rs. findRowLoop rs searchText 0)"

definition getColumnData :: "table_page \<Rightarrow> nat \<Rightarrow> (table_dom, jsval list) act" where
  "getColumnData tp columnIndex =
     await (getAllTableData tp) (\<lambda>data. ret (map (\<lambda>row. js_index row columnIndex) data))"

text \<open>
  What the two search loops compute, read off the rows: the cell search stops with a
  \<open>TimeoutError\<close> at the first row that has no cell in the column, the row search never
  fails.
\<close>

fun scan_cells :: "nat \<Rightarrow> string \<Rightarrow> nat \<Rightarrow> node list list \<Rightarrow> error + int" where
  "scan_cells c s i [] = Inr (- 1)"
| "scan_cells c s i (r # rs) =
     (if c < length (row_cells r)
      then (if js_includes (row_cells r ! c) s then Inr (int i) else scan_cells c s (Suc i) rs)
      else Inl TimeoutError)"

fun scan_rows :: "string \<Rightarrow> nat \<Rightarrow> node list list \<Rightarrow> int" where
  "scan_rows s i [] = - 1"
| "scan_rows s i (r # rs) =
     (if js_includes (concat (map node_text r)) s then int i else scan_rows s (Suc i) rs)"

section \<open>Sorting a column\<close>

text \<open>
  \<^verbatim>\<open>a < b\<close> on two strings: the code units at the first position where they differ
  decide, and a proper prefix is smaller.
\<close>

fun js_less :: "string \<Rightarrow> string \<Rightarrow> bool" where
  "js_less [] [] = False"
| "js_less [] (y # ys) = True"
| "js_less (x # xs) [] = False"
| "js_less (x # xs) (y # ys) = ((of_char x :: nat) < of_char y \<or> (x = y \<and> js_less xs ys))"

fun strings_of :: "jsval list \<Rightarrow> string list" where
  "strings_of [] = []"
| "strings_of (Undefined # vs) = strings_of vs"
| "strings_of (Str s # vs) = s # strings_of vs"

text \<open>
  \<^verbatim>\<open>[...values].sort()\<close> with no comparator: the strings in ascending order of their code
  units, then every \<^verbatim>\<open>undefined\<close>. The order \<open>\<le>\<close> on \<open>string\<close> is the lexicographic one on
  character codes.
\<close>

definition js_sort :: "jsval list \<Rightarrow> jsval list" where
  "js_sort vs = map Str (sort (strings_of vs)) @ filter (\<lambda>v. v = Undefined) vs"

text \<open>
  \<^verbatim>\<open>JSON.stringify\<close> of an array of strings: each string in double quotes with the quote,
  the backslash and the control characters escaped, \<^verbatim>\<open>undefined\<close> as \<^verbatim>\<open>null\<close>, commas between.
\<close>

definition hex_digit :: "nat \<Rightarrow> char" where
  "hex_digit n = ''0123456789abcdef'' ! n"

definition quote_char :: "char \<Rightarrow> string" where
  "quote_char c =
     (if c = CHR 0x08 then [CHR 0x5C, CHR ''b'']
      else if c = CHR 0x09 then [CHR 0x5C, CHR ''t'']
      else if c = CHR 0x0A then [CHR 0x5C, CHR ''n'']
      else if c = CHR 0x0C then [CHR 0x5C, CHR ''f'']
      else if c = CHR 0x0D then [CHR 0x5C, CHR ''r'']
      else if c = CHR 0x22 then [CHR 0x5C, CHR 0x22]
      else if c = CHR 0x5C then [CHR 0x5C, CHR 0x5C]
      else if (of_char c :: nat) < 0x20
        then [CHR 0x5C, CHR ''u'', CHR ''0'', CHR ''0'',
              hex_digit (of_char c div 16), hex_digit (of_char c mod 16)]
      else [c])"

definition quote_json :: "string \<Rightarrow> string" where
  "quote_json s = CHR 0x22 # concat (map quote_char s) @ [CHR 0x22]"

fun json_value :: "jsval \<Rightarrow> string" where
  "json_value Undefined = ''null''"
| "json_value (Str s) = quote_json s"

fun json_join :: "string list \<Rightarrow> string" where
  "json_join [] = []"
| "json_join (x # xs) = x @ concat (map (\<lambda>y. CHR '','' # y) xs)"

definition JSON_stringify :: "jsval list \<Rightarrow> string" where
  "JSON_stringify vs = ''['' @ json_join (map json_value vs) @ '']''"


definition isColumnSortedAscending :: "table_page \<Rightarrow> nat \<Rightarrow> (table_dom, bool) act" where
  "isColumnSortedAscending tp columnIndex =
     await (getAllTableData tp) (\<lambda>data.
       let columnValues = map (\<lambda>row. js_index row columnIndex) data;
           sortedValues = js_sort columnValues
       in ret (JSON_stringify columnValues = JSON_stringify sortedValues))"

definition isColumnSortedDescending :: "table_page \<Rightarrow> nat \<Rightarrow> (table_dom, bool) act" where
  "isColumnSortedDescending tp columnIndex =
     await (getAllTableData tp) (\<lambda>data.
       let columnValues = map (\<lambda>row. js_index row columnIndex) data;
           sortedValues = rev (js_sort columnValues)
       in ret (JSON_stringify columnValues = JSON_stringify sortedValues))"

text \<open>Reading one escaped code unit back, to show that the quoting loses nothing.\<close>

definition unhex :: "char \<Rightarrow> nat" where
  "unhex h = (if (of_char h :: nat) < 58 then of_char h - 48 else of_char h - 87)"

fun unquote_char :: "string \<Rightarrow> (char \<times> string) option" where
  "unquote_char [] = None"
| "unquote_char (b # r) =
     (if b \<noteq> CHR 0x5C then Some (b, r)
      else case r of
        [] \<Rightarrow> None
      | e # r' \<Rightarrow>
          if e = CHR ''b'' then Some (CHR 0x08, r')
          else if e = CHR ''t'' then Some (CHR 0x09, r')
          else if e = CHR ''n'' then Some (CHR 0x0A, r')
          else if e = CHR ''f'' then Some (CHR 0x0C, r')
          else if e = CHR ''r'' then Some (CHR 0x0D, r')
          else if e = CHR ''u'' then
            (case r' of z1 # z2 # h # l # r'' \<Rightarrow> Some (char_of (16 * unhex h + unhex l), r'')
             | _ \<Rightarrow> None)
          else Some (e, r'))"


section \<open>Events caused by a click: downloads, new windows, file choosers\<close>

text \<open>
  The browser side of the download, windows and upload surfaces. A call of
  \<^verbatim>\<open>waitForEvent\<close> registers a listener at once and returns its promise; the promise is
  resolved by the first event of its kind fired while it is pending. An event fired when no
  listener of its kind is pending is lost. Awaiting a promise that stays pending ends in a
  \<open>TimeoutError\<close>, and so does a click on an element that never appears. The record
  of calls keeps the driver calls in the order in which the method made them; \<open>Click\<close>
  stands for a click that was issued and awaited.
\<close>

datatype event_kind = DownloadEvent | PageEvent | FileChooserEvent

datatype target = Link string | TestId string | Button string | FrameButton string | ByText string

datatype 'p call =
    WaitForEvent event_kind
  | Click target
  | AwaitEvent nat
  | WaitForLoadState 'p
  | SetFiles 'p string
  | SaveAs 'p string

record 'p browser =
  promises :: "(event_kind \<times> 'p option) list"
  calls :: "'p call list"

text \<open>
  What the site under test and the file system answer: the events a click on a target
  causes (\<open>None\<close> when the target never appears), whether a new page finishes loading, the
  path of a download, whether saving it works, the text and the bytes of a file, and the
  absolute path that \<^verbatim>\<open>path.join(__dirname, "../fixtures", filename)\<close> gives.
\<close>

record 'p world =
  on_click :: "target \<Rightarrow> (event_kind \<times> 'p) list option"
  page_loads :: "'p \<Rightarrow> bool"
  download_path :: "'p \<Rightarrow> error + string option"
  save_download :: "'p \<Rightarrow> string \<Rightarrow> error + unit"
  file_text :: "string \<Rightarrow> error + string"
  file_bytes :: "string \<Rightarrow> error + nat list"
  fixture :: "string \<Rightarrow> string"

definition record_call :: "'p call \<Rightarrow> 'p browser \<Rightarrow> 'p browser" where
  "record_call c s = s\<lparr>calls := calls s @ [c]\<rparr>"

definition deliver :: "event_kind \<times> 'p \<Rightarrow> (event_kind \<times> 'p option) list \<Rightarrow> (event_kind \<times> 'p option) list" where
  "deliver ev ps = map (\<lambda>(k, r). if k = fst ev \<and> r = None then (k, Some (snd ev)) else (k, r)) ps"

fun fire :: "(event_kind \<times> 'p) list \<Rightarrow> (event_kind \<times> 'p option) list \<Rightarrow> (event_kind \<times> 'p option) list" where
  "fire [] ps = ps"
| "fire (ev # evs) ps = fire evs (deliver ev ps)"

definition waitForEvent :: "event_kind \<Rightarrow> ('p browser, nat) act" where
  "waitForEvent k =
     (\<lambda>s. (Inr (length (promises s)),
            record_call (WaitForEvent k) (s\<lparr>promises := promises s @ [(k, None)]\<rparr>)))"

definition click :: "'p world \<Rightarrow> target \<Rightarrow> ('p browser, unit) act" where
  "click w t =
     (\<lambda>s. case on_click w t of
        None \<Rightarrow> (Inl TimeoutError, record_call (Click t) s)
      | Some evs \<Rightarrow> (Inr (), record_call (Click t) (s\<lparr>promises := fire evs (promises s)\<rparr>)))"

definition awaitEvent :: "nat \<Rightarrow> ('p browser, 'p) act" where
  "awaitEvent n =
     (\<lambda>s. case (if n < length (promises s) then snd (promises s ! n) else None) of
        None \<Rightarrow> (Inl TimeoutError, record_call (AwaitEvent n) s)
      | Some p \<Rightarrow> (Inr p, record_call (AwaitEvent n) s))"

definition waitForLoadState :: "'p world \<Rightarrow> 'p \<Rightarrow> ('p browser, unit) act" where
  "waitForLoadState w p =
     (\<lambda>s. (if page_loads w p then Inr () else Inl TimeoutError, record_call (WaitForLoadState p) s))"

definition setFiles :: "'p \<Rightarrow> string \<Rightarrow> ('p browser, unit) act" where
  "setFiles p file = (\<lambda>s. (Inr (), record_call (SetFiles p file) s))"

definition saveAs :: "'p world \<Rightarrow> 'p \<Rightarrow> string \<Rightarrow> ('p browser, unit) act" where
  "saveAs w p file = (\<lambda>s. (save_download w p file, record_call (SaveAs p file) s))"

definition path_of :: "'p world \<Rightarrow> 'p \<Rightarrow> ('p browser, string option) act" where
  "path_of w p = (\<lambda>s. (download_path w p, s))"

definition readFileSync :: "(string \<Rightarrow> error + 'a) \<Rightarrow> string \<Rightarrow> ('p browser, 'a) act" where
  "readFileSync content file = (\<lambda>s. (content file, s))"

text \<open>
  \<^verbatim>\<open>const p = m()\<close> without \<^verbatim>\<open>await\<close>: the call is made now and its promise is kept; the
  method goes on with the next statement.
\<close>

definition start :: "('s, 'a) act \<Rightarrow> ('a \<Rightarrow> ('s, 'b) act) \<Rightarrow> ('s, 'b) act" where
  "start m f = (\<lambda>s. case m s of (Inl e, s') \<Rightarrow> (Inl e, s') | (Inr x, s') \<Rightarrow> f x s')"

subsection \<open>\<^verbatim>\<open>FileDownloadPage\<close>\<close>

definition downloadFileByName :: "'p world \<Rightarrow> string \<Rightarrow> ('p browser, 'p) act" where
  "downloadFileByName w filename =
     start (waitForEvent DownloadEvent) (\<lambda>downloadPromise.
       await (click w (Link filename)) (\<lambda>_.
         await (awaitEvent downloadPromise) (\<lambda>download. ret download)))"

definition downloadAndSave :: "'p world \<Rightarrow> string \<Rightarrow> string \<Rightarrow> ('p browser, unit) act" where
  "downloadAndSave w filename savePath =
     await (downloadFileByName w filename) (\<lambda>download. saveAs w download savePath)"

definition downloadAndReadText :: "'p world \<Rightarrow> string \<Rightarrow> ('p browser, string) act" where
  "downloadAndReadText w filename =
     await (downloadFileByName w filename) (\<lambda>download.
       await (path_of w download) (\<lambda>filePath.
         case filePath of
           None \<Rightarrow> throw (Error ''Download failed - no path returned'')
         | Some file \<Rightarrow>
             if file = [] then throw (Error ''Download failed - no path returned'')
             else readFileSync (file_text w) file))"

definition downloadAndReadBuffer :: "'p world \<Rightarrow> string \<Rightarrow> ('p browser, nat list) act" where
  "downloadAndReadBuffer w filename =
     await (downloadFileByName w filename) (\<lambda>download.
       await (path_of w download) (\<lambda>filePath.
         case filePath of
           None \<Rightarrow> throw (Error ''Download failed - no path returned'')
         | Some file \<Rightarrow>
             if file = [] then throw (Error ''Download failed - no path returned'')
             else readFileSync (file_bytes w) file))"

subsection \<open>\<^verbatim>\<open>WindowsPage\<close>\<close>

definition clickLinkOpeningNewWindow :: "'p world \<Rightarrow> string \<Rightarrow> ('p browser, 'p) act" where
  "clickLinkOpeningNewWindow w linkText =
     start (waitForEvent PageEvent) (\<lambda>newPagePromise.
       await (click w (Link linkText)) (\<lambda>_.
         await (awaitEvent newPagePromise) (\<lambda>newPage.
           await (waitForLoadState w newPage) (\<lambda>_. ret newPage))))"

text \<open>A number in a template literal, for an integer: its decimal digits, with a sign.\<close>

function dec_nat :: "nat \<Rightarrow> string" where
  "dec_nat n = (if n < 10 then [char_of (48 + n)] else dec_nat (n div 10) @ [char_of (48 + n mod 10)])"
  by pat_completeness auto
termination
  by (relation "measure id") auto

declare dec_nat.simps [simp del]

definition number_to_string :: "int \<Rightarrow> string" where
  "number_to_string i = (if i < 0 then CHR ''-'' # dec_nat (nat (- i)) else dec_nat (nat i))"

text \<open>\<^verbatim>\<open>pages[index]\<close>: the element at an index inside the array, \<^verbatim>\<open>undefined\<close> (\<open>None\<close>) elsewhere.\<close>

definition js_at :: "'a list \<Rightarrow> int \<Rightarrow> 'a option" where
  "js_at xs i = (if 0 \<le> i \<and> i < int (length xs) then Some (xs ! nat i) else None)"

text \<open>\<open>pages\<close> is what \<^verbatim>\<open>this.context.pages()\<close> returns.\<close>

definition switchToWindow :: "'p list \<Rightarrow> int \<Rightarrow> error + 'p option" where
  "switchToWindow pages index =
     (if index \<ge> int (length pages)
      then Inl (Error (''Window '' @ number_to_string index @ '' does not exist''))
      else Inr (js_at pages index))"

subsection \<open>\<^verbatim>\<open>FileUploadPage\<close>\<close>

record upload_page =
  fileInput :: target
  dropZone :: target
  uploadButton :: target

definition FileUploadPage :: upload_page where
  "FileUploadPage =
     \<lparr>fileInput = TestId ''file-input'', dropZone = TestId ''file-input'',
      uploadButton = TestId ''file-submit''\<rparr>"

definition uploadViaFileChooser :: "'p world \<Rightarrow> upload_page \<Rightarrow> string \<Rightarrow> ('p browser, unit) act" where
  "uploadViaFileChooser w up filename =
     (let filePath = fixture w filename in
      start (waitForEvent FileChooserEvent) (\<lambda>fileChooserPromise.
        await (click w (dropZone up)) (\<lambda>_.
          await (awaitEvent fileChooserPromise) (\<lambda>fileChooser. setFiles fileChooser filePath))))"

subsection \<open>The ad-dismissal helper of the tests\<close>

definition dismissAnyAds :: "'p world \<Rightarrow> ('p browser, unit) act" where
  "dismissAnyAds w =
     await (try_catch (click w (FrameButton ''close ad''))) (\<lambda>_.
       await (try_catch (click w (Button ''Close''))) (\<lambda>_.
         try_catch (click w (ByText [CHR 0xD7]))))"

text \<open>Whether the record of calls has a click with the await of a listener's promise after it.\<close>

fun is_await :: "'p call \<Rightarrow> bool" where
  "is_await (AwaitEvent n) = True"
| "is_await _ = False"

fun awaited_after_click :: "'p call list \<Rightarrow> bool" where
  "awaited_after_click [] = False"
| "awaited_after_click (Click t # cs) = list_ex is_await cs"
| "awaited_after_click (c # cs) = awaited_after_click cs"

text \<open>A site and file system for worked examples: three links, a file input, no ads.\<close>

definition demo_world :: "string world" where
  "demo_world =
     \<lparr>on_click = (\<lambda>t.
        if t = Link ''some-file.txt'' then Some [(DownloadEvent, ''download-1'')]
        else if t = Link ''broken.bin'' then Some [(DownloadEvent, ''download-2'')]
        else if t = Link ''about'' then Some []
        else if t = Link ''Click Here'' then Some [(PageEvent, ''page-2'')]
        else if t = TestId ''file-input'' then Some [(FileChooserEvent, ''chooser-1'')]
        else None),
      page_loads = (\<lambda>p. True),
      download_path = (\<lambda>p. if p = ''download-1'' then Inr (Some ''/tmp/download-1'') else Inr None),
      save_download = (\<lambda>p file. Inr ()),
      file_text = (\<lambda>file. if file = ''/tmp/download-1'' then Inr ''hello'' else Inl (Error ''ENOENT'')),
      file_bytes = (\<lambda>file. if file = ''/tmp/download-1'' then Inr [104, 105] else Inl (Error ''ENOENT'')),
      fixture = (\<lambda>name. ''/repo/src/fixtures/'' @ name)\<rparr>"

definition fresh_browser :: "string browser" where
  "fresh_browser = \<lparr>promises = [], calls = []\<rparr>"

section \<open>Drag and drop\<close>

text \<open>The texts shown in the two slots \<^verbatim>\<open>#column-a\<close> and \<^verbatim>\<open>#column-b\<close>.\<close>

record slots =
  column_a :: string
  column_b :: string

text \<open>
  Modelled from the spec: the drop handler of the site under test, which is not part of
  the repository. Dropping one slot on the other exchanges the texts of the two slots, the
  slots themselves staying where they are; dropping a slot on itself changes nothing (as
  the test TC-DD09 expects).
\<close>

definition drop_on :: "string \<Rightarrow> string \<Rightarrow> slots \<Rightarrow> slots" where
  "drop_on source dest s =
     (if source = dest then s else s\<lparr>column_a := column_b s, column_b := column_a s\<rparr>)"

definition is_slot :: "string \<Rightarrow> bool" where
  "is_slot sel = (sel = ''#column-a'' \<or> sel = ''#column-b'')"

definition dragTo :: "string \<Rightarrow> string \<Rightarrow> (slots, unit) act" where
  "dragTo source dest =
     (\<lambda>s. if is_slot source \<and> is_slot dest then (Inr (), drop_on source dest s)
          else (Inl TimeoutError, s))"

definition slotTextContent :: "string \<Rightarrow> (slots, string option) act" where
  "slotTextContent sel =
     (\<lambda>s. if sel = ''#column-a'' then (Inr (Some (column_a s)), s)
          else if sel = ''#column-b'' then (Inr (Some (column_b s)), s)
          else (Inl TimeoutError, s))"

record drag_drop_page =
  columnA :: string
  columnB :: string

definition DragDropPage :: drag_drop_page where
  "DragDropPage = \<lparr>columnA = ''#column-a'', columnB = ''#column-b''\<rparr>"

definition dragToTarget :: "string \<Rightarrow> string \<Rightarrow> (slots, unit) act" where
  "dragToTarget source dest = await (dragTo source dest) ret"

definition dragAtoB :: "drag_drop_page \<Rightarrow> (slots, unit) act" where
  "dragAtoB dp = await (dragTo (columnA dp) (columnB dp)) ret"

definition dragBtoA :: "drag_drop_page \<Rightarrow> (slots, unit) act" where
  "dragBtoA dp = await (dragTo (columnB dp) (columnA dp)) ret"

definition getColumnAText :: "drag_drop_page \<Rightarrow> (slots, string) act" where
  "getColumnAText dp = await (slotTextContent (columnA dp)) (\<lambda>t. ret (or_else t []))"

definition getColumnBText :: "drag_drop_page \<Rightarrow> (slots, string) act" where
  "getColumnBText dp = await (slotTextContent (columnB dp)) (\<lambda>t. ret (or_else t []))"
section \<open>Properties of the table reader\<close>

lemma js_includes_iff: "js_includes hay needle \<longleftrightarrow> (\<exists>p q. hay = p @ needle @ q)"
proof (induction hay)
  case Nil
  then show ?case by auto
next
  case (Cons c hay)
  show ?case
  proof
    assume "js_includes (c # hay) needle"
    then consider "prefix needle (c # hay)" | "js_includes hay needle" by auto
    then show "\<exists>p q. c # hay = p @ needle @ q"
    proof cases
      case 1
      then obtain q where "c # hay = needle @ q" by (auto simp: prefix_def)
      then have "c # hay = [] @ needle @ q" by simp
      then show ?thesis by blast
    next
      case 2
      then obtain p q where "hay = p @ needle @ q" using Cons.IH by blast
      then have "c # hay = (c # p) @ needle @ q" by simp
      then show ?thesis by blast
    qed
  next
    assume "\<exists>p q. c # hay = p @ needle @ q"
    then obtain p q where pq: "c # hay = p @ needle @ q" by blast
    show "js_includes (c # hay) needle"
    proof (cases p)
      case Nil
      with pq have "prefix needle (c # hay)" by (simp add: prefix_def)
      then show ?thesis by simp
    next
      case (Cons a p')
      with pq have "hay = p' @ needle @ q" by simp
      then have "js_includes hay needle" using Cons.IH by blast
      then show ?thesis by simp
    qed
  qed
qed

lemma js_includes_empty: "js_includes hay []"
  by (cases hay) auto

lemma or_else_Some_empty: "or_else (Some s) [] = s"
  by (simp add: or_else_def)

lemma resolve_tableRows: "resolve d (tableRows TablePage) = map ElTr (rows d)"
  by (simp add: TablePage_def Let_def query_def)

lemma resolve_getRow:
  "resolve d (getRow TablePage i) = (if i < length (rows d) then [ElTr (rows d ! i)] else [])"
  by (simp add: getRow_def resolve_tableRows)

lemma resolve_row_tds:
  "resolve d (Sub (getRow TablePage i) ''td'') =
     (if i < length (rows d) then map ElTd (row_cells (rows d ! i)) else [])"
  by (simp add: resolve_getRow query_def)

lemma resolve_cell:
  "resolve d (Nth (Sub (getRow TablePage i) ''td'') c) =
     (if i < length (rows d) \<and> c < length (row_cells (rows d ! i))
      then [ElTd (row_cells (rows d ! i) ! c)] else [])"
  by (simp only: resolve.simps(3) resolve_row_tds) simp

lemma getCellText_eq:
  "getCellText TablePage i c d =
     (if i < length (rows d) \<and> c < length (row_cells (rows d ! i))
      then Inr (row_cells (rows d ! i) ! c) else Inl TimeoutError, d)"
  by (simp add: getCellText_def Let_def await_def ret_def textContent_def resolve_cell
        or_else_Some_empty del: resolve.simps)

lemma getRowCount_eq: "getRowCount TablePage d = (Inr (int (length (rows d))), d)"
  by (simp add: getRowCount_def await_def ret_def count_def resolve_tableRows)

lemma findRowIndexLoop_eq:
  "i \<le> length (rows d) \<Longrightarrow>
   findRowIndexLoop TablePage c s i (int (length (rows d))) d = (scan_cells c s i (drop i (rows d)), d)"
proof (induction "length (rows d) - i" arbitrary: i)
  case 0
  then show ?case by (subst findRowIndexLoop.simps) (simp add: ret_def)
next
  case (Suc k)
  then have lt: "i < length (rows d)" by simp
  then have dr: "drop i (rows d) = rows d ! i # drop (Suc i) (rows d)"
    by (simp add: Cons_nth_drop_Suc)
  have ih: "findRowIndexLoop TablePage c s (Suc i) (int (length (rows d))) d =
            (scan_cells c s (Suc i) (drop (Suc i) (rows d)), d)"
    using Suc.hyps(1) [of "Suc i"] Suc.hyps(2) lt by simp
  show ?case
    using lt by (subst findRowIndexLoop.simps) (simp add: dr await_def getCellText_eq ih ret_def)
qed

lemma findRowIndexByCellContent_eq:
  "findRowIndexByCellContent TablePage c s d = (scan_cells c s 0 (rows d), d)"
  using findRowIndexLoop_eq [of 0 d c s]
  by (simp add: findRowIndexByCellContent_def await_def getRowCount_eq)

lemma all_matches_rows:
  "all_matches (tableRows TablePage) d = (Inr (map (Nth (tableRows TablePage)) [0..<length (rows d)]), d)"
  by (simp add: all_matches_def resolve_tableRows del: resolve.simps)

lemma findRowLoop_eq:
  assumes "rs = map (Nth (tableRows TablePage)) [0..<length (rows d)]" "i \<le> length (rows d)"
  shows "findRowLoop rs s i d = (Inr (scan_rows s i (drop i (rows d))), d)"
  using assms(2)
proof (induction "length (rows d) - i" arbitrary: i)
  case 0
  then show ?case using assms(1) by (subst findRowLoop.simps) (simp add: ret_def)
next
  case (Suc k)
  then have lt: "i < length (rows d)" by simp
  then have dr: "drop i (rows d) = rows d ! i # drop (Suc i) (rows d)"
    by (simp add: Cons_nth_drop_Suc)
  have ih: "findRowLoop rs s (Suc i) d = (Inr (scan_rows s (Suc i) (drop (Suc i) (rows d))), d)"
    using Suc.hyps(1) [of "Suc i"] Suc.hyps(2) lt by simp
  have len: "length rs = length (rows d)" using assms(1) by simp
  have nth: "rs ! i = Nth (tableRows TablePage) i" using assms(1) lt by simp
  have tc: "textContent (rs ! i) d = (Inr (Some (concat (map node_text (rows d ! i)))), d)"
    using lt by (simp add: nth textContent_def resolve_tableRows del: resolve.simps)
        (simp add: resolve_tableRows)
  show ?case
    using lt by (subst findRowLoop.simps) (simp add: len dr await_def tc ih ret_def opt_includes_def)
qed

lemma findRowByContent_eq:
  "findRowByContent TablePage s d = (Inr (scan_rows s 0 (rows d)), d)"
  using findRowLoop_eq [OF refl, of 0 d s]
  by (simp add: findRowByContent_def await_def all_matches_rows)


lemma scan_cells_none:
  "\<forall>r\<in>set rs. c < length (row_cells r) \<and> \<not> js_includes (row_cells r ! c) s \<Longrightarrow>
   scan_cells c s k rs = Inr (- 1)"
  by (induction rs arbitrary: k) auto

lemma scan_cells_first:
  "i < length rs \<Longrightarrow> c < length (row_cells (rs ! i)) \<Longrightarrow> js_includes (row_cells (rs ! i) ! c) s \<Longrightarrow>
   \<forall>j<i. c < length (row_cells (rs ! j)) \<and> \<not> js_includes (row_cells (rs ! j) ! c) s \<Longrightarrow>
   scan_cells c s k rs = Inr (int (k + i))"
proof (induction rs arbitrary: k i)
  case Nil
  then show ?case by simp
next
  case (Cons r rs)
  show ?case
  proof (cases i)
    case 0
    with Cons.prems show ?thesis by simp
  next
    case (Suc i')
    have r0: "c < length (row_cells r) \<and> \<not> js_includes (row_cells r ! c) s"
      using Cons.prems(4) Suc by force
    have "scan_cells c s (Suc k) rs = Inr (int (Suc k + i'))"
    proof (rule Cons.IH)
      show "i' < length rs" using Cons.prems(1) Suc by simp
      show "c < length (row_cells (rs ! i'))" using Cons.prems(2) Suc by simp
      show "js_includes (row_cells (rs ! i') ! c) s" using Cons.prems(3) Suc by simp
      show "\<forall>j<i'. c < length (row_cells (rs ! j)) \<and> \<not> js_includes (row_cells (rs ! j) ! c) s"
        using Cons.prems(4) Suc by force
    qed
    then show ?thesis using r0 Suc by simp
  qed
qed

lemma scan_cells_timeout:
  "i < length rs \<Longrightarrow> \<not> c < length (row_cells (rs ! i)) \<Longrightarrow>
   \<forall>j<i. c < length (row_cells (rs ! j)) \<and> \<not> js_includes (row_cells (rs ! j) ! c) s \<Longrightarrow>
   scan_cells c s k rs = Inl TimeoutError"
proof (induction rs arbitrary: k i)
  case Nil
  then show ?case by simp
next
  case (Cons r rs)
  show ?case
  proof (cases i)
    case 0
    with Cons.prems show ?thesis by simp
  next
    case (Suc i')
    have r0: "c < length (row_cells r) \<and> \<not> js_includes (row_cells r ! c) s"
      using Cons.prems(3) Suc by force
    have "scan_cells c s (Suc k) rs = Inl TimeoutError"
    proof (rule Cons.IH)
      show "i' < length rs" using Cons.prems(1) Suc by simp
      show "\<not> c < length (row_cells (rs ! i'))" using Cons.prems(2) Suc by simp
      show "\<forall>j<i'. c < length (row_cells (rs ! j)) \<and> \<not> js_includes (row_cells (rs ! j) ! c) s"
        using Cons.prems(3) Suc by force
    qed
    then show ?thesis using r0 by simp
  qed
qed

lemma scan_rows_none:
  "\<forall>r\<in>set rs. \<not> js_includes (concat (map node_text r)) s \<Longrightarrow> scan_rows s k rs = - 1"
  by (induction rs arbitrary: k) auto

lemma scan_rows_first:
  "i < length rs \<Longrightarrow> js_includes (concat (map node_text (rs ! i))) s \<Longrightarrow>
   \<forall>j<i. \<not> js_includes (concat (map node_text (rs ! j))) s \<Longrightarrow>
   scan_rows s k rs = int (k + i)"
proof (induction rs arbitrary: k i)
  case Nil
  then show ?case by simp
next
  case (Cons r rs)
  show ?case
  proof (cases i)
    case 0
    with Cons.prems show ?thesis by simp
  next
    case (Suc i')
    have r0: "\<not> js_includes (concat (map node_text r)) s"
      using Cons.prems(3) Suc by force
    have "scan_rows s (Suc k) rs = int (Suc k + i')"
    proof (rule Cons.IH)
      show "i' < length rs" using Cons.prems(1) Suc by simp
      show "js_includes (concat (map node_text (rs ! i'))) s" using Cons.prems(2) Suc by simp
      show "\<forall>j<i'. \<not> js_includes (concat (map node_text (rs ! j))) s"
        using Cons.prems(3) Suc by force
    qed
    then show ?thesis using r0 Suc by simp
  qed
qed

lemma allTextContents_row:
  "i < length (rows d) \<Longrightarrow>
   allTextContents (Sub (Nth (tableRows TablePage) i) ''td'') d = (Inr (row_cells (rows d ! i)), d)"
  using resolve_row_tds [of d i]
  by (simp add: allTextContents_def getRow_def or_else_Some_empty o_def del: resolve.simps)

lemma collectRows_eq:
  "\<forall>i\<in>set is. i < length (rows d) \<Longrightarrow>
   collectRows (map (Nth (tableRows TablePage)) is) data d =
     (Inr (data @ map (\<lambda>i. map trim (row_cells (rows d ! i))) is), d)"
proof (induction "is" arbitrary: data)
  case Nil
  then show ?case by (simp add: ret_def)
next
  case (Cons i "is")
  then show ?case by (simp add: await_def allTextContents_row)
qed

lemma getAllTableData_eq:
  "getAllTableData TablePage d = (Inr (map (\<lambda>r. map trim (row_cells r)) (rows d)), d)"
proof -
  have "map (\<lambda>i. map trim (row_cells (rows d ! i))) [0..<length (rows d)] =
        map (\<lambda>r. map trim (row_cells r)) (rows d)"
    by (rule nth_equalityI) simp_all
  then show ?thesis
    by (simp add: getAllTableData_def await_def all_matches_rows collectRows_eq)
qed

lemma getRowData_eq:
  "getRowData TablePage i d =
     (Inr (if i < length (rows d) then map trim (row_cells (rows d ! i)) else []), d)"
  using resolve_row_tds [of d i]
  by (simp add: getRowData_def Let_def await_def ret_def allTextContents_def or_else_Some_empty o_def
        del: resolve.simps)

lemma getColumnData_eq:
  "getColumnData TablePage c d =
     (Inr (map (\<lambda>r. js_index (map trim (row_cells r)) c) (rows d)), d)"
  by (simp add: getColumnData_def await_def getAllTableData_eq ret_def o_def)

lemma trim_empty: "trim [] = []" by (simp add: trim_def)

lemma read_state:
  "snd (count l d) = d" "snd (all_matches l d) = d" "snd (allTextContents l d) = d" "snd (textContent l d) = d"
  by (simp_all add: count_def all_matches_def allTextContents_def textContent_def split: list.splits)


subsection \<open>Row count\<close>

text \<open>
  C5. For every table, \<^verbatim>\<open>getRowCount()\<close> returns a non-negative integer and does not fail;
  on a table with no body rows it returns 0.
\<close>

theorem getRowCount_nonneg:
  "(\<exists>n. getRowCount TablePage d = (Inr n, d) \<and> 0 \<le> n) \<and>
   (rows d = [] \<longrightarrow> getRowCount TablePage d = (Inr 0, d))"
  by (simp add: getRowCount_eq)

theorem getRowCount_nonneg_witness:
  "rows \<lparr>headers = [''Name''], rows = []\<rparr> = [] \<and>
   getRowCount TablePage \<lparr>headers = [''Name''], rows = []\<rparr> =
     (Inr 0, \<lparr>headers = [''Name''], rows = []\<rparr>)"
  using getRowCount_nonneg [of "\<lparr>headers = [''Name''], rows = []\<rparr>"] by simp

subsection \<open>Searching for a row\<close>

text \<open>
  C2, as amended. \<^verbatim>\<open>findRowByContent\<close> returns -1 when no row's text contains the search
  text and otherwise the 0-based index of the first such row. \<^verbatim>\<open>findRowIndexByCellContent\<close>
  does the same for the cell in the given column, provided every row it examines (all rows
  when none matches, the rows before the first match otherwise) has a cell in that column;
  when it reaches a row without one, the \<open>TimeoutError\<close> of the cell read is its result.
  No index equals the sentinel -1.
\<close>

theorem find_first_match_or_sentinel:
  "((\<forall>r\<in>set (rows d). c < length (row_cells r) \<and> \<not> js_includes (row_cells r ! c) s) \<longrightarrow>
      findRowIndexByCellContent TablePage c s d = (Inr (- 1), d)) \<and>
   (i < length (rows d) \<and> c < length (row_cells (rows d ! i)) \<and>
    js_includes (row_cells (rows d ! i) ! c) s \<and>
    (\<forall>j<i. c < length (row_cells (rows d ! j)) \<and> \<not> js_includes (row_cells (rows d ! j) ! c) s) \<longrightarrow>
      findRowIndexByCellContent TablePage c s d = (Inr (int i), d)) \<and>
   (i < length (rows d) \<and> \<not> c < length (row_cells (rows d ! i)) \<and>
    (\<forall>j<i. c < length (row_cells (rows d ! j)) \<and> \<not> js_includes (row_cells (rows d ! j) ! c) s) \<longrightarrow>
      findRowIndexByCellContent TablePage c s d = (Inl TimeoutError, d)) \<and>
   ((\<forall>r\<in>set (rows d). \<not> js_includes (text_of (ElTr r)) s) \<longrightarrow>
      findRowByContent TablePage s d = (Inr (- 1), d)) \<and>
   (i < length (rows d) \<and> js_includes (text_of (ElTr (rows d ! i))) s \<and>
    (\<forall>j<i. \<not> js_includes (text_of (ElTr (rows d ! j))) s) \<longrightarrow>
      findRowByContent TablePage s d = (Inr (int i), d)) \<and>
   int i \<noteq> - 1"
proof -
  have a: "(\<forall>r\<in>set (rows d). c < length (row_cells r) \<and> \<not> js_includes (row_cells r ! c) s) \<longrightarrow>
      findRowIndexByCellContent TablePage c s d = (Inr (- 1), d)"
    by (simp add: findRowIndexByCellContent_eq scan_cells_none)
  have b: "i < length (rows d) \<and> c < length (row_cells (rows d ! i)) \<and>
    js_includes (row_cells (rows d ! i) ! c) s \<and>
    (\<forall>j<i. c < length (row_cells (rows d ! j)) \<and> \<not> js_includes (row_cells (rows d ! j) ! c) s) \<longrightarrow>
      findRowIndexByCellContent TablePage c s d = (Inr (int i), d)"
    using scan_cells_first [of i "rows d" c s 0] by (simp add: findRowIndexByCellContent_eq)
  have t: "i < length (rows d) \<and> \<not> c < length (row_cells (rows d ! i)) \<and>
    (\<forall>j<i. c < length (row_cells (rows d ! j)) \<and> \<not> js_includes (row_cells (rows d ! j) ! c) s) \<longrightarrow>
      findRowIndexByCellContent TablePage c s d = (Inl TimeoutError, d)"
    using scan_cells_timeout [of i "rows d" c s 0] by (simp add: findRowIndexByCellContent_eq)
  have e: "(\<forall>r\<in>set (rows d). \<not> js_includes (text_of (ElTr r)) s) \<longrightarrow>
      findRowByContent TablePage s d = (Inr (- 1), d)"
    by (simp add: findRowByContent_eq scan_rows_none)
  have f: "i < length (rows d) \<and> js_includes (text_of (ElTr (rows d ! i))) s \<and>
    (\<forall>j<i. \<not> js_includes (text_of (ElTr (rows d ! j))) s) \<longrightarrow>
      findRowByContent TablePage s d = (Inr (int i), d)"
    using scan_rows_first [of i "rows d" s 0] by (simp add: findRowByContent_eq)
  have g: "int i \<noteq> - 1" by simp
  from a b t e f g show ?thesis by blast
qed

theorem find_first_match_or_sentinel_witness:
  "findRowIndexByCellContent TablePage 0 ''b''
     \<lparr>headers = [], rows = [[Td ''a'', Td ''b''], [Other '' '', Td ''abc'']]\<rparr> =
     (Inr 1, \<lparr>headers = [], rows = [[Td ''a'', Td ''b''], [Other '' '', Td ''abc'']]\<rparr>) \<and>
   findRowByContent TablePage ''b''
     \<lparr>headers = [], rows = [[Td ''a'', Td ''b''], [Other '' '', Td ''abc'']]\<rparr> =
     (Inr 0, \<lparr>headers = [], rows = [[Td ''a'', Td ''b''], [Other '' '', Td ''abc'']]\<rparr>) \<and>
   findRowIndexByCellContent TablePage 0 ''z''
     \<lparr>headers = [], rows = [[Td ''a'', Td ''b''], [Other '' '', Td ''abc'']]\<rparr> =
     (Inr (- 1), \<lparr>headers = [], rows = [[Td ''a'', Td ''b''], [Other '' '', Td ''abc'']]\<rparr>) \<and>
   findRowByContent TablePage ''z''
     \<lparr>headers = [], rows = [[Td ''a'', Td ''b''], [Other '' '', Td ''abc'']]\<rparr> =
     (Inr (- 1), \<lparr>headers = [], rows = [[Td ''a'', Td ''b''], [Other '' '', Td ''abc'']]\<rparr>) \<and>
   findRowIndexByCellContent TablePage 1 ''b''
     \<lparr>headers = [], rows = [[Td ''a'', Td ''c''], [Other '' '', Td ''abc'']]\<rparr> =
     (Inl TimeoutError, \<lparr>headers = [], rows = [[Td ''a'', Td ''c''], [Other '' '', Td ''abc'']]\<rparr>)"
  using
    find_first_match_or_sentinel [where d = "\<lparr>headers = [], rows = [[Td ''a'', Td ''b''], [Other '' '', Td ''abc'']]\<rparr>"
      and c = 0 and s = "''b''" and i = 1]
    find_first_match_or_sentinel [where d = "\<lparr>headers = [], rows = [[Td ''a'', Td ''b''], [Other '' '', Td ''abc'']]\<rparr>"
      and c = 0 and s = "''b''" and i = 0]
    find_first_match_or_sentinel [where d = "\<lparr>headers = [], rows = [[Td ''a'', Td ''b''], [Other '' '', Td ''abc'']]\<rparr>"
      and c = 0 and s = "''z''" and i = 0]
    find_first_match_or_sentinel [where d = "\<lparr>headers = [], rows = [[Td ''a'', Td ''c''], [Other '' '', Td ''abc'']]\<rparr>"
      and c = 1 and s = "''b''" and i = 1]
  by simp

text \<open>
  The claim as first stated (for every table, -1 when no row matches) fails on a table
  with a row that has no cell: no row matches, and the search ends in a \<open>TimeoutError\<close>.
\<close>

theorem find_sentinel_counterexample:
  "row_cells [] = [] \<and>
   findRowIndexByCellContent TablePage 0 ''x'' \<lparr>headers = [], rows = [[]]\<rparr> \<noteq>
     (Inr (- 1), \<lparr>headers = [], rows = [[]]\<rparr>) \<and>
   findRowIndexByCellContent TablePage 0 ''x'' \<lparr>headers = [], rows = [[]]\<rparr> =
     (Inl TimeoutError, \<lparr>headers = [], rows = [[]]\<rparr>)"
  by (simp add: findRowIndexByCellContent_eq)

text \<open>
  C9, as amended. Both searches match by containment: the cell search returns the lowest
  index of a row whose cell in the column has the search text somewhere inside it (given
  that the rows before it have such a cell), the row search the lowest index of a row whose
  whole text has it inside. Searching for the empty string returns 0 from \<^verbatim>\<open>findRowByContent\<close>
  on every table with a row, and from \<^verbatim>\<open>findRowIndexByCellContent\<close> when the first row has a
  cell in the column.
\<close>

theorem find_matches_by_containment:
  "(i < length (rows d) \<and> c < length (row_cells (rows d ! i)) \<and>
    (\<exists>p q. row_cells (rows d ! i) ! c = p @ s @ q) \<and>
    (\<forall>j<i. c < length (row_cells (rows d ! j)) \<and> \<not> (\<exists>p q. row_cells (rows d ! j) ! c = p @ s @ q)) \<longrightarrow>
      findRowIndexByCellContent TablePage c s d = (Inr (int i), d)) \<and>
   (i < length (rows d) \<and> (\<exists>p q. text_of (ElTr (rows d ! i)) = p @ s @ q) \<and>
    (\<forall>j<i. \<not> (\<exists>p q. text_of (ElTr (rows d ! j)) = p @ s @ q)) \<longrightarrow>
      findRowByContent TablePage s d = (Inr (int i), d)) \<and>
   (rows d \<noteq> [] \<longrightarrow> findRowByContent TablePage [] d = (Inr 0, d)) \<and>
   (rows d \<noteq> [] \<and> c < length (row_cells (hd (rows d))) \<longrightarrow>
      findRowIndexByCellContent TablePage c [] d = (Inr 0, d))"
proof -
  have a: "i < length (rows d) \<and> c < length (row_cells (rows d ! i)) \<and>
    (\<exists>p q. row_cells (rows d ! i) ! c = p @ s @ q) \<and>
    (\<forall>j<i. c < length (row_cells (rows d ! j)) \<and> \<not> (\<exists>p q. row_cells (rows d ! j) ! c = p @ s @ q)) \<longrightarrow>
      findRowIndexByCellContent TablePage c s d = (Inr (int i), d)"
    using scan_cells_first [of i "rows d" c s 0]
    by (simp add: findRowIndexByCellContent_eq js_includes_iff)
  have b: "i < length (rows d) \<and> (\<exists>p q. text_of (ElTr (rows d ! i)) = p @ s @ q) \<and>
    (\<forall>j<i. \<not> (\<exists>p q. text_of (ElTr (rows d ! j)) = p @ s @ q)) \<longrightarrow>
      findRowByContent TablePage s d = (Inr (int i), d)"
    using scan_rows_first [of i "rows d" s 0]
    by (simp add: findRowByContent_eq js_includes_iff)
  have e: "rows d \<noteq> [] \<longrightarrow> findRowByContent TablePage [] d = (Inr 0, d)"
    by (cases "rows d") (simp_all add: findRowByContent_eq js_includes_empty)
  have f: "rows d \<noteq> [] \<and> c < length (row_cells (hd (rows d))) \<longrightarrow>
      findRowIndexByCellContent TablePage c [] d = (Inr 0, d)"
    by (cases "rows d") (simp_all add: findRowIndexByCellContent_eq js_includes_empty)
  from a b e f show ?thesis by blast
qed

theorem find_matches_by_containment_witness:
  "findRowIndexByCellContent TablePage 1 ''mit''
     \<lparr>headers = [], rows = [[Td ''John'', Td ''Doe''], [Td ''Jane'', Td ''Smith'']]\<rparr> =
     (Inr 1, \<lparr>headers = [], rows = [[Td ''John'', Td ''Doe''], [Td ''Jane'', Td ''Smith'']]\<rparr>) \<and>
   findRowByContent TablePage ''nD''
     \<lparr>headers = [], rows = [[Td ''John'', Td ''Doe''], [Td ''Jane'', Td ''Smith'']]\<rparr> =
     (Inr 0, \<lparr>headers = [], rows = [[Td ''John'', Td ''Doe''], [Td ''Jane'', Td ''Smith'']]\<rparr>) \<and>
   findRowByContent TablePage []
     \<lparr>headers = [], rows = [[Td ''John'', Td ''Doe''], [Td ''Jane'', Td ''Smith'']]\<rparr> =
     (Inr 0, \<lparr>headers = [], rows = [[Td ''John'', Td ''Doe''], [Td ''Jane'', Td ''Smith'']]\<rparr>) \<and>
   findRowIndexByCellContent TablePage 1 []
     \<lparr>headers = [], rows = [[Td ''John'', Td ''Doe''], [Td ''Jane'', Td ''Smith'']]\<rparr> =
     (Inr 0, \<lparr>headers = [], rows = [[Td ''John'', Td ''Doe''], [Td ''Jane'', Td ''Smith'']]\<rparr>)"
proof -
  let ?d = "\<lparr>headers = [], rows = [[Td ''John'', Td ''Doe''], [Td ''Jane'', Td ''Smith'']]\<rparr>"
  have h1: "1 < length (rows ?d) \<and> 1 < length (row_cells (rows ?d ! 1)) \<and>
    (\<exists>p q. row_cells (rows ?d ! 1) ! 1 = p @ ''mit'' @ q) \<and>
    (\<forall>j<1. 1 < length (row_cells (rows ?d ! j)) \<and> \<not> (\<exists>p q. row_cells (rows ?d ! j) ! 1 = p @ ''mit'' @ q))"
    unfolding js_includes_iff [symmetric] by simp
  have h2: "0 < length (rows ?d) \<and> (\<exists>p q. text_of (ElTr (rows ?d ! 0)) = p @ ''nD'' @ q) \<and>
    (\<forall>j<0. \<not> (\<exists>p q. text_of (ElTr (rows ?d ! j)) = p @ ''nD'' @ q))"
    unfolding js_includes_iff [symmetric] by simp
  have h3: "rows ?d \<noteq> [] \<and> 1 < length (row_cells (hd (rows ?d)))" by simp
  show ?thesis
    using find_matches_by_containment [where d = ?d and c = 1 and s = "''mit''" and i = 1]
      find_matches_by_containment [where d = ?d and c = 1 and s = "''nD''" and i = 0]
      h1 h2 h3
    by simp
qed

text \<open>
  The claim as first stated (index 0 for the empty string on any table with a row) fails
  for the cell search when the first row has no cell in the column.
\<close>

theorem find_empty_string_counterexample:
  "rows \<lparr>headers = [], rows = [[Td ''John'', Td ''Doe'']]\<rparr> \<noteq> [] \<and>
   findRowIndexByCellContent TablePage 2 [] \<lparr>headers = [], rows = [[Td ''John'', Td ''Doe'']]\<rparr> =
     (Inl TimeoutError, \<lparr>headers = [], rows = [[Td ''John'', Td ''Doe'']]\<rparr>)"
  by (simp add: findRowIndexByCellContent_eq)

subsection \<open>Extraction\<close>

text \<open>
  C3, as amended. Extraction tolerates a row with no cells: \<^verbatim>\<open>getAllTableData\<close> and
  \<^verbatim>\<open>getRowData\<close> never fail and give the trimmed texts of the cells a row has, the empty
  list for a row without cells. \<^verbatim>\<open>getCellText\<close> returns the text of a cell that is there
  and ends in a \<open>TimeoutError\<close> when the row or the cell is absent. \<^verbatim>\<open>getColumnData\<close>
  gives the trimmed cell text for each row, on a table where every row has that column.
\<close>

theorem extraction_of_rows_and_cells:
  "getAllTableData TablePage d = (Inr (map (\<lambda>r. map trim (row_cells r)) (rows d)), d) \<and>
   getRowData TablePage i d =
     (Inr (if i < length (rows d) then map trim (row_cells (rows d ! i)) else []), d) \<and>
   (i < length (rows d) \<and> c < length (row_cells (rows d ! i)) \<longrightarrow>
      getCellText TablePage i c d = (Inr (row_cells (rows d ! i) ! c), d)) \<and>
   (\<not> (i < length (rows d) \<and> c < length (row_cells (rows d ! i))) \<longrightarrow>
      getCellText TablePage i c d = (Inl TimeoutError, d)) \<and>
   ((\<forall>r\<in>set (rows d). c < length (row_cells r)) \<longrightarrow>
      getColumnData TablePage c d = (Inr (map (\<lambda>r. Str (trim (row_cells r ! c))) (rows d)), d))"
proof -
  have "(\<forall>r\<in>set (rows d). c < length (row_cells r)) \<longrightarrow>
      map (\<lambda>r. js_index (map trim (row_cells r)) c) (rows d) =
      map (\<lambda>r. Str (trim (row_cells r ! c))) (rows d)"
    by (simp add: js_index_def)
  then show ?thesis
    by (simp add: getAllTableData_eq getRowData_eq getCellText_eq getColumnData_eq)
qed

theorem extraction_of_rows_and_cells_witness:
  "getAllTableData TablePage \<lparr>headers = [], rows = [[Td '' a '', Other ''x'', Td ''''], []]\<rparr> =
     (Inr [[''a'', ''''], []], \<lparr>headers = [], rows = [[Td '' a '', Other ''x'', Td ''''], []]\<rparr>) \<and>
   getRowData TablePage 1 \<lparr>headers = [], rows = [[Td '' a '', Other ''x'', Td ''''], []]\<rparr> =
     (Inr [], \<lparr>headers = [], rows = [[Td '' a '', Other ''x'', Td ''''], []]\<rparr>) \<and>
   getCellText TablePage 0 1 \<lparr>headers = [], rows = [[Td '' a '', Other ''x'', Td ''''], []]\<rparr> =
     (Inr '''', \<lparr>headers = [], rows = [[Td '' a '', Other ''x'', Td ''''], []]\<rparr>) \<and>
   getCellText TablePage 1 0 \<lparr>headers = [], rows = [[Td '' a '', Other ''x'', Td ''''], []]\<rparr> =
     (Inl TimeoutError, \<lparr>headers = [], rows = [[Td '' a '', Other ''x'', Td ''''], []]\<rparr>) \<and>
   getColumnData TablePage 0 \<lparr>headers = [], rows = [[Td '' a '', Td ''b''], [Td ''c'']]\<rparr> =
     (Inr [Str ''a'', Str ''c''], \<lparr>headers = [], rows = [[Td '' a '', Td ''b''], [Td ''c'']]\<rparr>)"
  using
    extraction_of_rows_and_cells [where d = "\<lparr>headers = [], rows = [[Td '' a '', Other ''x'', Td ''''], []]\<rparr>"
      and i = 1 and c = 0]
    extraction_of_rows_and_cells [where d = "\<lparr>headers = [], rows = [[Td '' a '', Other ''x'', Td ''''], []]\<rparr>"
      and i = 0 and c = 1]
    extraction_of_rows_and_cells [where d = "\<lparr>headers = [], rows = [[Td '' a '', Td ''b''], [Td ''c'']]\<rparr>"
      and i = 0 and c = 0]
  by (simp add: trim_def is_ws_def)

text \<open>
  The claim as first stated (an absent cell resolves to the empty string) fails on a table
  whose second row has no cell: reading that cell ends in a \<open>TimeoutError\<close>, and the column
  has \<^verbatim>\<open>undefined\<close> at that row.
\<close>

theorem absent_cell_counterexample:
  "getCellText TablePage 1 0 \<lparr>headers = [], rows = [[Td ''x''], []]\<rparr> =
     (Inl TimeoutError, \<lparr>headers = [], rows = [[Td ''x''], []]\<rparr>) \<and>
   getColumnData TablePage 0 \<lparr>headers = [], rows = [[Td ''x''], []]\<rparr> =
     (Inr [Str ''x'', Undefined], \<lparr>headers = [], rows = [[Td ''x''], []]\<rparr>)"
  by (simp add: getCellText_eq getColumnData_eq js_index_def trim_def is_ws_def)

subsection \<open>Reading through a locator twice\<close>

text \<open>
  C6. Reading through a locator has no effect on the document: for every locator, the
  count, the text and the texts of all matches leave the document as it was, so that a
  second read with nothing in between gives the same count and the same text; the same
  holds for \<^verbatim>\<open>getAllTableData\<close>. A locator holds a query and not the elements it matched:
  after any change \<open>m\<close> of the document, the same locator and the same page object answer
  from the changed document.
\<close>

theorem locator_reads_are_repeatable:
  "snd (count l d) = d \<and> snd (textContent l d) = d \<and> snd (allTextContents l d) = d \<and>
   snd (all_matches l d) = d \<and>
   count l (snd (count l d)) = count l d \<and>
   textContent l (snd (textContent l d)) = textContent l d \<and>
   allTextContents l (snd (allTextContents l d)) = allTextContents l d \<and>
   snd (getAllTableData TablePage d) = d \<and>
   getAllTableData TablePage (snd (getAllTableData TablePage d)) = getAllTableData TablePage d \<and>
   fst (count l (m (snd (count l d)))) = Inr (int (length (resolve (m d) l))) \<and>
   fst (allTextContents l (m (snd (allTextContents l d)))) = Inr (map text_of (resolve (m d) l)) \<and>
   fst (getAllTableData TablePage (m (snd (getAllTableData TablePage d)))) =
     Inr (map (\<lambda>r. map trim (row_cells r)) (rows (m d)))"
proof -
  have "or_else (Some t) [] = t" for t by (rule or_else_Some_empty)
  then have texts: "fst (allTextContents l e) = Inr (map text_of (resolve e l))" for e
    by (simp add: allTextContents_def)
  have cnt: "fst (count l e) = Inr (int (length (resolve e l)))" for e
    by (simp add: count_def)
  show ?thesis
    by (simp add: read_state getAllTableData_eq texts cnt)
qed

section \<open>Properties of the sorting checks\<close>

lemma unhex_hex_digit: "n < 16 \<Longrightarrow> unhex (hex_digit n) = n"
proof -
  have "list_all (\<lambda>k. unhex (hex_digit k) = k) [0..<16]"
    by code_simp
  moreover assume "n < 16"
  ultimately show ?thesis by (simp add: list_all_iff)
qed

lemma unquote_quote_char: "unquote_char (quote_char c @ x) = Some (c, x)"
proof -
  have u: "(of_char c :: nat) < 0x20 \<Longrightarrow>
     char_of (16 * unhex (hex_digit (of_char c div 16)) + unhex (hex_digit (of_char c mod 16))) = c"
  proof -
    assume lt: "(of_char c :: nat) < 0x20"
    have "(of_char c :: nat) div 16 < 16" using lt by simp
    then have a: "unhex (hex_digit (of_char c div 16)) = of_char c div 16"
      by (rule unhex_hex_digit)
    have b: "unhex (hex_digit (of_char c mod 16)) = of_char c mod 16"
      by (rule unhex_hex_digit) simp
    show ?thesis by (simp add: a b)
  qed
  show ?thesis
    by (simp add: quote_char_def u)
qed

lemma quote_char_prefix_free:
  "quote_char c @ x = quote_char d @ y \<Longrightarrow> c = d \<and> x = y"
proof -
  assume "quote_char c @ x = quote_char d @ y"
  then have "unquote_char (quote_char c @ x) = unquote_char (quote_char d @ y)" by simp
  then show ?thesis by (simp add: unquote_quote_char)
qed


lemma quote_char_not_quote: "quote_char c @ x \<noteq> CHR 0x22 # y"
  by (simp add: quote_char_def)

lemma quote_body_inj:
  "concat (map quote_char s) @ CHR 0x22 # x = concat (map quote_char t) @ CHR 0x22 # y \<Longrightarrow>
   s = t \<and> x = y"
proof (induction s arbitrary: t)
  case Nil
  then show ?case
  proof (cases t)
    case Nil
    with Nil.prems show ?thesis by simp
  next
    case (Cons d t')
    with Nil.prems have "quote_char d @ (concat (map quote_char t') @ CHR 0x22 # y) = CHR 0x22 # x"
      by simp
    then show ?thesis using quote_char_not_quote by blast
  qed
next
  case (Cons c s)
  show ?case
  proof (cases t)
    case Nil
    with Cons.prems have "quote_char c @ (concat (map quote_char s) @ CHR 0x22 # x) = CHR 0x22 # y"
      by simp
    then show ?thesis using quote_char_not_quote by blast
  next
    case (Cons d t')
    with Cons.prems have "quote_char c @ (concat (map quote_char s) @ CHR 0x22 # x) =
        quote_char d @ (concat (map quote_char t') @ CHR 0x22 # y)"
      by simp
    then have "c = d" and "concat (map quote_char s) @ CHR 0x22 # x = concat (map quote_char t') @ CHR 0x22 # y"
      using quote_char_prefix_free by blast+
    then show ?thesis using Cons.IH Cons by simp
  qed
qed

lemma json_value_inj: "json_value v @ x = json_value w @ y \<Longrightarrow> v = w \<and> x = y"
proof (cases v; cases w)
  fix s t assume "json_value v @ x = json_value w @ y" "v = Str s" "w = Str t"
  then show ?thesis using quote_body_inj [of s x t y] by (simp add: quote_json_def)
qed (simp_all add: quote_json_def)

lemma json_value_head: "json_value v @ x \<noteq> CHR '']'' # y" "json_value v @ x \<noteq> CHR '','' # y"
  by (cases v; simp add: quote_json_def)+

lemma json_tail_inj:
  "concat (map (\<lambda>y. CHR '','' # y) (map json_value vs)) @ CHR '']'' # x =
   concat (map (\<lambda>y. CHR '','' # y) (map json_value ws)) @ CHR '']'' # y \<Longrightarrow> vs = ws"
proof (induction vs arbitrary: ws)
  case Nil
  then show ?case by (cases ws) simp_all
next
  case (Cons v vs)
  show ?case
  proof (cases ws)
    case Nil
    with Cons.prems show ?thesis by simp
  next
    case (Cons w ws')
    with Cons.prems have "json_value v @ (concat (map (\<lambda>y. CHR '','' # y) (map json_value vs)) @ CHR '']'' # x) =
      json_value w @ (concat (map (\<lambda>y. CHR '','' # y) (map json_value ws')) @ CHR '']'' # y)"
      by simp
    then have "v = w" and "concat (map (\<lambda>y. CHR '','' # y) (map json_value vs)) @ CHR '']'' # x =
       concat (map (\<lambda>y. CHR '','' # y) (map json_value ws')) @ CHR '']'' # y"
      using json_value_inj by blast+
    then show ?thesis using Cons.IH Cons by simp
  qed
qed

lemma JSON_stringify_inj: "JSON_stringify vs = JSON_stringify ws \<longleftrightarrow> vs = ws"
proof
  assume eq: "JSON_stringify vs = JSON_stringify ws"
  show "vs = ws"
  proof (cases vs; cases ws)
    fix v vs' w ws' assume vs: "vs = v # vs'" and ws: "ws = w # ws'"
    with eq have "json_value v @ (concat (map (\<lambda>y. CHR '','' # y) (map json_value vs')) @ CHR '']'' # []) =
      json_value w @ (concat (map (\<lambda>y. CHR '','' # y) (map json_value ws')) @ CHR '']'' # [])"
      by (simp add: JSON_stringify_def)
    then have "v = w" and "concat (map (\<lambda>y. CHR '','' # y) (map json_value vs')) @ CHR '']'' # [] =
       concat (map (\<lambda>y. CHR '','' # y) (map json_value ws')) @ CHR '']'' # []"
      using json_value_inj by blast+
    then show ?thesis using json_tail_inj vs ws by blast
  next
    fix w ws' assume "vs = []" "ws = w # ws'"
    with eq have "json_value w @ (concat (map (\<lambda>y. CHR '','' # y) (map json_value ws')) @ '']'') = CHR '']'' # []"
      by (simp add: JSON_stringify_def)
    then show ?thesis using json_value_head(1) by blast
  next
    fix v vs' assume "vs = v # vs'" "ws = []"
    with eq have "json_value v @ (concat (map (\<lambda>y. CHR '','' # y) (map json_value vs')) @ '']'') = CHR '']'' # []"
      by (simp add: JSON_stringify_def)
    then show ?thesis using json_value_head(1) by blast
  qed simp
qed simp

lemma js_less_iff: "js_less a b \<longleftrightarrow> a < b"
  by (induction a b rule: js_less.induct) (auto simp: less_char_def)

lemma strings_of_Str: "strings_of (map Str xs) = xs"
  by (induction xs) auto

lemma map_Str_eq: "map Str xs = map Str ys \<longleftrightarrow> xs = ys"
  by (rule inj_map_eq_map) (simp add: inj_def)

lemma js_sort_Str: "js_sort (map Str xs) = map Str (sort xs)"
  by (simp add: js_sort_def strings_of_Str)

lemma fixed_by_sort_iff: "map Str xs = js_sort (map Str xs) \<longleftrightarrow> sorted_wrt (\<lambda>a b. \<not> js_less b a) xs"
proof -
  have "(\<lambda>a b. \<not> js_less b a) = (\<lambda>a b :: string. a \<le> b)"
    by (intro ext) (simp add: js_less_iff not_less)
  then have "sorted_wrt (\<lambda>a b. \<not> js_less b a) xs \<longleftrightarrow> sorted xs" by simp
  moreover have "xs = sort xs \<longleftrightarrow> sorted xs"
    by (metis sorted_sort sorted_sort_id)
  ultimately show ?thesis by (simp add: js_sort_Str map_Str_eq)
qed

lemma fixed_by_rev_sort_iff:
  "map Str xs = rev (js_sort (map Str xs)) \<longleftrightarrow> sorted_wrt (\<lambda>a b. \<not> js_less a b) xs"
proof -
  have "(\<lambda>a b. \<not> js_less a b) = (\<lambda>a b :: string. b \<le> a)"
    by (intro ext) (simp add: js_less_iff not_less)
  then have "sorted_wrt (\<lambda>a b. \<not> js_less a b) xs \<longleftrightarrow> sorted (rev xs)"
    by (simp add: sorted_wrt_rev)
  moreover have "xs = rev (sort xs) \<longleftrightarrow> sorted (rev xs)"
  proof
    assume "xs = rev (sort xs)"
    then have "rev xs = sort xs" by (metis rev_rev_ident)
    then show "sorted (rev xs)" by (metis sorted_sort)
  next
    assume "sorted (rev xs)"
    then have "sort xs = rev xs"
      by (intro properties_for_sort) simp_all
    then show "xs = rev (sort xs)" by simp
  qed
  ultimately show ?thesis by (simp add: js_sort_Str rev_map map_Str_eq)
qed

lemma js_sort_replicate: "js_sort (replicate n v) = replicate n v"
proof (cases v)
  case Undefined
  have "strings_of (replicate n Undefined) = []" by (induction n) auto
  then show ?thesis using Undefined by (simp add: js_sort_def)
next
  case (Str s)
  have "replicate n (Str s) = map Str (replicate n s)" by simp
  moreover have "sort (replicate n s) = replicate n s"
    by (intro sorted_sort_id) simp
  ultimately show ?thesis using Str js_sort_Str [of "replicate n s"] by simp
qed

lemma isColumnSortedAscending_eq:
  "isColumnSortedAscending TablePage c d =
     (Inr (map (\<lambda>r. js_index (map trim (row_cells r)) c) (rows d) =
           js_sort (map (\<lambda>r. js_index (map trim (row_cells r)) c) (rows d))), d)"
  by (simp add: isColumnSortedAscending_def await_def getAllTableData_eq ret_def Let_def o_def
        JSON_stringify_inj)

lemma isColumnSortedDescending_eq:
  "isColumnSortedDescending TablePage c d =
     (Inr (map (\<lambda>r. js_index (map trim (row_cells r)) c) (rows d) =
           rev (js_sort (map (\<lambda>r. js_index (map trim (row_cells r)) c) (rows d)))), d)"
  by (simp add: isColumnSortedDescending_def await_def getAllTableData_eq ret_def Let_def o_def
        JSON_stringify_inj)

lemma column_of_full_rows:
  "\<forall>r\<in>set rs. c < length (row_cells r) \<Longrightarrow>
   map (\<lambda>r. js_index (map trim (row_cells r)) c) rs = map Str (map (\<lambda>r. trim (row_cells r ! c)) rs)"
  by (simp add: js_index_def)

lemma column_of_equal_values:
  "\<forall>r\<in>set rs. f r = v \<Longrightarrow> map f rs = replicate (length rs) v"
  by (induction rs) auto

lemma column_of_short_table:
  "length rs \<le> 1 \<Longrightarrow> \<exists>v. map f rs = replicate (length rs) v"
  by (cases rs) auto

text \<open>
  C10. Both checks compare the trimmed cell texts as strings, code unit by code unit, not
  as numbers: on a table where every row has the column, \<^verbatim>\<open>isColumnSortedAscending\<close> says
  whether no text is followed by a smaller one in that order, \<^verbatim>\<open>isColumnSortedDescending\<close>
  whether none is followed by a larger one. The text \<^verbatim>\<open>10\<close> is smaller than \<^verbatim>\<open>2\<close>, so the column
  2, 10 is reported as not ascending. Both checks return true when the table has at most
  one row and when all values of the column are equal.
\<close>

theorem column_order_is_lexicographic:
  "((\<forall>r\<in>set (rows d). c < length (row_cells r)) \<longrightarrow>
      isColumnSortedAscending TablePage c d =
        (Inr (sorted_wrt (\<lambda>a b. \<not> js_less b a) (map (\<lambda>r. trim (row_cells r ! c)) (rows d))), d) \<and>
      isColumnSortedDescending TablePage c d =
        (Inr (sorted_wrt (\<lambda>a b. \<not> js_less a b) (map (\<lambda>r. trim (row_cells r ! c)) (rows d))), d)) \<and>
   (length (rows d) \<le> 1 \<longrightarrow>
      isColumnSortedAscending TablePage c d = (Inr True, d) \<and>
      isColumnSortedDescending TablePage c d = (Inr True, d)) \<and>
   ((\<forall>r\<in>set (rows d). js_index (map trim (row_cells r)) c = v) \<longrightarrow>
      isColumnSortedAscending TablePage c d = (Inr True, d) \<and>
      isColumnSortedDescending TablePage c d = (Inr True, d)) \<and>
   js_less ''10'' ''2'' \<and>
   isColumnSortedAscending TablePage 0 \<lparr>headers = [], rows = [[Td ''2''], [Td ''10'']]\<rparr> =
     (Inr False, \<lparr>headers = [], rows = [[Td ''2''], [Td ''10'']]\<rparr>)"
proof -
  have full: "(\<forall>r\<in>set (rows d). c < length (row_cells r)) \<longrightarrow>
      isColumnSortedAscending TablePage c d =
        (Inr (sorted_wrt (\<lambda>a b. \<not> js_less b a) (map (\<lambda>r. trim (row_cells r ! c)) (rows d))), d) \<and>
      isColumnSortedDescending TablePage c d =
        (Inr (sorted_wrt (\<lambda>a b. \<not> js_less a b) (map (\<lambda>r. trim (row_cells r ! c)) (rows d))), d)"
  proof (intro impI)
    assume "\<forall>r\<in>set (rows d). c < length (row_cells r)"
    then have col: "map (\<lambda>r. js_index (map trim (row_cells r)) c) (rows d) =
        map Str (map (\<lambda>r. trim (row_cells r ! c)) (rows d))"
      by (rule column_of_full_rows)
    show "isColumnSortedAscending TablePage c d =
        (Inr (sorted_wrt (\<lambda>a b. \<not> js_less b a) (map (\<lambda>r. trim (row_cells r ! c)) (rows d))), d) \<and>
      isColumnSortedDescending TablePage c d =
        (Inr (sorted_wrt (\<lambda>a b. \<not> js_less a b) (map (\<lambda>r. trim (row_cells r ! c)) (rows d))), d)"
      unfolding isColumnSortedAscending_eq isColumnSortedDescending_eq col
        fixed_by_sort_iff fixed_by_rev_sort_iff
      by simp
  qed
  have rep: "isColumnSortedAscending TablePage c d = (Inr True, d) \<and>
      isColumnSortedDescending TablePage c d = (Inr True, d)"
    if "map (\<lambda>r. js_index (map trim (row_cells r)) c) (rows d) = replicate n w" for n w
    by (simp add: isColumnSortedAscending_eq isColumnSortedDescending_eq that js_sort_replicate)
  have short: "length (rows d) \<le> 1 \<longrightarrow>
      isColumnSortedAscending TablePage c d = (Inr True, d) \<and>
      isColumnSortedDescending TablePage c d = (Inr True, d)"
    using column_of_short_table [of "rows d" "\<lambda>r. js_index (map trim (row_cells r)) c"] rep
    by blast
  have equal: "(\<forall>r\<in>set (rows d). js_index (map trim (row_cells r)) c = v) \<longrightarrow>
      isColumnSortedAscending TablePage c d = (Inr True, d) \<and>
      isColumnSortedDescending TablePage c d = (Inr True, d)"
    using column_of_equal_values [of "rows d" "\<lambda>r. js_index (map trim (row_cells r)) c" v] rep
    by blast
  have less: "js_less ''10'' ''2''" by simp
  have "map (\<lambda>r. js_index (map trim (row_cells r)) 0) [[Td ''2''], [Td ''10'']] = map Str [''2'', ''10'']"
    by (simp add: js_index_def trim_def is_ws_def)
  then have ex: "isColumnSortedAscending TablePage 0 \<lparr>headers = [], rows = [[Td ''2''], [Td ''10'']]\<rparr> =
     (Inr False, \<lparr>headers = [], rows = [[Td ''2''], [Td ''10'']]\<rparr>)"
    using fixed_by_sort_iff [of "[''2'', ''10'']"] by (simp add: isColumnSortedAscending_eq)
  from full short equal less ex show ?thesis by blast
qed

theorem column_order_is_lexicographic_witness:
  "isColumnSortedAscending TablePage 1
     \<lparr>headers = [], rows = [[Td ''1'', Td '' 9''], [Td ''2'', Td ''10 '']]\<rparr> =
     (Inr False, \<lparr>headers = [], rows = [[Td ''1'', Td '' 9''], [Td ''2'', Td ''10 '']]\<rparr>) \<and>
   isColumnSortedDescending TablePage 1
     \<lparr>headers = [], rows = [[Td ''1'', Td '' 9''], [Td ''2'', Td ''10 '']]\<rparr> =
     (Inr True, \<lparr>headers = [], rows = [[Td ''1'', Td '' 9''], [Td ''2'', Td ''10 '']]\<rparr>) \<and>
   isColumnSortedAscending TablePage 0 \<lparr>headers = [], rows = [[Td ''b'']]\<rparr> =
     (Inr True, \<lparr>headers = [], rows = [[Td ''b'']]\<rparr>) \<and>
   isColumnSortedDescending TablePage 0 \<lparr>headers = [], rows = [[Td ''b''], [Td ''b''], [Td ''b '']]\<rparr> =
     (Inr True, \<lparr>headers = [], rows = [[Td ''b''], [Td ''b''], [Td ''b '']]\<rparr>)"
  using
    column_order_is_lexicographic [where d = "\<lparr>headers = [], rows = [[Td ''1'', Td '' 9''], [Td ''2'', Td ''10 '']]\<rparr>"
      and c = 1 and v = Undefined]
    column_order_is_lexicographic [where d = "\<lparr>headers = [], rows = [[Td ''b'']]\<rparr>" and c = 0 and v = Undefined]
    column_order_is_lexicographic [where d = "\<lparr>headers = [], rows = [[Td ''b''], [Td ''b''], [Td ''b '']]\<rparr>"
      and c = 0 and v = "Str ''b''"]
  by (simp add: js_index_def trim_def is_ws_def)

section \<open>Properties of the event-driven operations\<close>

lemma deliver_length: "length (deliver ev ps) = length ps"
  by (simp add: deliver_def)

lemma fire_length: "length (fire evs ps) = length ps"
  by (induction evs arbitrary: ps) (simp_all add: deliver_length)

lemma deliver_snoc:
  "deliver ev (ps @ [(k, r)]) =
     deliver ev ps @ [(k, if k = fst ev \<and> r = None then Some (snd ev) else r)]"
  by (simp add: deliver_def)

lemma fire_snoc:
  "fire evs (ps @ [(k, r)]) ! length ps = (k, case r of None \<Rightarrow> map_of evs k | Some p \<Rightarrow> Some p)"
proof (induction evs arbitrary: ps r)
  case Nil
  then show ?case by (simp split: option.splits)
next
  case (Cons ev evs)
  have "fire (ev # evs) (ps @ [(k, r)]) ! length ps =
        fire evs (deliver ev ps @ [(k, if k = fst ev \<and> r = None then Some (snd ev) else r)]) !
          length (deliver ev ps)"
    by (simp add: deliver_snoc deliver_length)
  also have "\<dots> = (k, case (if k = fst ev \<and> r = None then Some (snd ev) else r) of
                        None \<Rightarrow> map_of evs k | Some p \<Rightarrow> Some p)"
    by (rule Cons.IH)
  also have "\<dots> = (k, case r of None \<Rightarrow> map_of (ev # evs) k | Some p \<Rightarrow> Some p)"
    by (cases ev) (auto split: option.splits)
  finally show ?case .
qed

lemma fire_pending:
  "snd (fire evs (ps @ [(k, None)]) ! length ps) = map_of evs k"
  by (simp add: fire_snoc)

text \<open>
  The shape shared by the three operations: register, click, then await the promise and go
  on with the payload.
\<close>

lemma observe_eq:
  "start (waitForEvent k) (\<lambda>pr. await (click w t) (\<lambda>_. await (awaitEvent pr) g)) s =
     (case on_click w t of
        None \<Rightarrow>
          (Inl TimeoutError,
           s\<lparr>promises := promises s @ [(k, None)], calls := calls s @ [WaitForEvent k, Click t]\<rparr>)
      | Some evs \<Rightarrow>
          (case map_of evs k of
             None \<Rightarrow>
               (Inl TimeoutError,
                s\<lparr>promises := fire evs (promises s @ [(k, None)]),
                  calls := calls s @ [WaitForEvent k, Click t, AwaitEvent (length (promises s))]\<rparr>)
           | Some p \<Rightarrow>
               g p (s\<lparr>promises := fire evs (promises s @ [(k, None)]),
                       calls := calls s @ [WaitForEvent k, Click t, AwaitEvent (length (promises s))]\<rparr>)))"
  by (simp add: start_def await_def waitForEvent_def click_def awaitEvent_def record_call_def
        fire_length fire_pending split: option.splits)

lemma downloadFileByName_eq:
  "downloadFileByName w f s =
     (case on_click w (Link f) of
        None \<Rightarrow>
          (Inl TimeoutError,
           s\<lparr>promises := promises s @ [(DownloadEvent, None)],
             calls := calls s @ [WaitForEvent DownloadEvent, Click (Link f)]\<rparr>)
      | Some evs \<Rightarrow>
          (case map_of evs DownloadEvent of None \<Rightarrow> Inl TimeoutError | Some p \<Rightarrow> Inr p,
           s\<lparr>promises := fire evs (promises s @ [(DownloadEvent, None)]),
             calls := calls s @ [WaitForEvent DownloadEvent, Click (Link f),
                                 AwaitEvent (length (promises s))]\<rparr>))"
  unfolding downloadFileByName_def observe_eq
  by (simp add: ret_def split: option.splits)

lemma clickLinkOpeningNewWindow_eq:
  "clickLinkOpeningNewWindow w f s =
     (case on_click w (Link f) of
        None \<Rightarrow>
          (Inl TimeoutError,
           s\<lparr>promises := promises s @ [(PageEvent, None)],
             calls := calls s @ [WaitForEvent PageEvent, Click (Link f)]\<rparr>)
      | Some evs \<Rightarrow>
          (case map_of evs PageEvent of
             None \<Rightarrow>
               (Inl TimeoutError,
                s\<lparr>promises := fire evs (promises s @ [(PageEvent, None)]),
                  calls := calls s @ [WaitForEvent PageEvent, Click (Link f),
                                      AwaitEvent (length (promises s))]\<rparr>)
           | Some p \<Rightarrow>
               (if page_loads w p then Inr p else Inl TimeoutError,
                s\<lparr>promises := fire evs (promises s @ [(PageEvent, None)]),
                  calls := calls s @ [WaitForEvent PageEvent, Click (Link f),
                                      AwaitEvent (length (promises s)), WaitForLoadState p]\<rparr>)))"
  unfolding clickLinkOpeningNewWindow_def observe_eq
  by (simp add: ret_def await_def waitForLoadState_def record_call_def split: option.splits)

lemma dropZone_FileUploadPage: "dropZone FileUploadPage = TestId ''file-input''"
  by (simp add: FileUploadPage_def)

lemma uploadViaFileChooser_eq:
  "uploadViaFileChooser w FileUploadPage f s =
     (case on_click w (TestId ''file-input'') of
        None \<Rightarrow>
          (Inl TimeoutError,
           s\<lparr>promises := promises s @ [(FileChooserEvent, None)],
             calls := calls s @ [WaitForEvent FileChooserEvent, Click (TestId ''file-input'')]\<rparr>)
      | Some evs \<Rightarrow>
          (case map_of evs FileChooserEvent of
             None \<Rightarrow>
               (Inl TimeoutError,
                s\<lparr>promises := fire evs (promises s @ [(FileChooserEvent, None)]),
                  calls := calls s @ [WaitForEvent FileChooserEvent, Click (TestId ''file-input''),
                                      AwaitEvent (length (promises s))]\<rparr>)
           | Some p \<Rightarrow>
               (Inr (),
                s\<lparr>promises := fire evs (promises s @ [(FileChooserEvent, None)]),
                  calls := calls s @ [WaitForEvent FileChooserEvent, Click (TestId ''file-input''),
                                      AwaitEvent (length (promises s)), SetFiles p (fixture w f)]\<rparr>)))"
  unfolding uploadViaFileChooser_def Let_def dropZone_FileUploadPage observe_eq
  by (simp add: setFiles_def record_call_def split: option.splits)

text \<open>
  C1, as amended. Each of the three operations registers its listener before it issues the
  click, awaits the click, and then awaits the listener's promise as a step of its own;
  the event fired by the click is not lost. \<^verbatim>\<open>downloadFileByName\<close> returns the resolved
  download, \<^verbatim>\<open>clickLinkOpeningNewWindow\<close> the new page once it has loaded, and
  \<^verbatim>\<open>uploadViaFileChooser\<close> sets the file on the resolved chooser and returns nothing.
\<close>

theorem listener_registered_before_click:
  "(on_click w (Link f) = Some evs \<and> map_of evs DownloadEvent = Some p \<longrightarrow>
      fst (downloadFileByName w f s) = Inr p \<and>
      calls (snd (downloadFileByName w f s)) =
        calls s @ [WaitForEvent DownloadEvent, Click (Link f), AwaitEvent (length (promises s))]) \<and>
   (on_click w (Link f) = Some evs \<and> map_of evs PageEvent = Some p \<and> page_loads w p \<longrightarrow>
      fst (clickLinkOpeningNewWindow w f s) = Inr p \<and>
      calls (snd (clickLinkOpeningNewWindow w f s)) =
        calls s @ [WaitForEvent PageEvent, Click (Link f), AwaitEvent (length (promises s)),
                   WaitForLoadState p]) \<and>
   (on_click w (dropZone FileUploadPage) = Some evs \<and> map_of evs FileChooserEvent = Some p \<longrightarrow>
      fst (uploadViaFileChooser w FileUploadPage f s) = Inr () \<and>
      calls (snd (uploadViaFileChooser w FileUploadPage f s)) =
        calls s @ [WaitForEvent FileChooserEvent, Click (dropZone FileUploadPage),
                   AwaitEvent (length (promises s)), SetFiles p (fixture w f)]) \<and>
   take 2 (drop (length (calls s)) (calls (snd (downloadFileByName w f s)))) =
     [WaitForEvent DownloadEvent, Click (Link f)] \<and>
   take 2 (drop (length (calls s)) (calls (snd (clickLinkOpeningNewWindow w f s)))) =
     [WaitForEvent PageEvent, Click (Link f)] \<and>
   take 2 (drop (length (calls s)) (calls (snd (uploadViaFileChooser w FileUploadPage f s)))) =
     [WaitForEvent FileChooserEvent, Click (dropZone FileUploadPage)]"
proof -
  have a: "on_click w (Link f) = Some evs \<and> map_of evs DownloadEvent = Some p \<longrightarrow>
      fst (downloadFileByName w f s) = Inr p \<and>
      calls (snd (downloadFileByName w f s)) =
        calls s @ [WaitForEvent DownloadEvent, Click (Link f), AwaitEvent (length (promises s))]"
    by (simp add: downloadFileByName_eq)
  have b: "on_click w (Link f) = Some evs \<and> map_of evs PageEvent = Some p \<and> page_loads w p \<longrightarrow>
      fst (clickLinkOpeningNewWindow w f s) = Inr p \<and>
      calls (snd (clickLinkOpeningNewWindow w f s)) =
        calls s @ [WaitForEvent PageEvent, Click (Link f), AwaitEvent (length (promises s)),
                   WaitForLoadState p]"
    by (simp add: clickLinkOpeningNewWindow_eq)
  have c: "on_click w (dropZone FileUploadPage) = Some evs \<and> map_of evs FileChooserEvent = Some p \<longrightarrow>
      fst (uploadViaFileChooser w FileUploadPage f s) = Inr () \<and>
      calls (snd (uploadViaFileChooser w FileUploadPage f s)) =
        calls s @ [WaitForEvent FileChooserEvent, Click (dropZone FileUploadPage),
                   AwaitEvent (length (promises s)), SetFiles p (fixture w f)]"
    by (simp add: uploadViaFileChooser_eq dropZone_FileUploadPage)
  have d: "take 2 (drop (length (calls s)) (calls (snd (downloadFileByName w f s)))) =
     [WaitForEvent DownloadEvent, Click (Link f)]"
    by (simp add: downloadFileByName_eq split: option.splits)
  have e: "take 2 (drop (length (calls s)) (calls (snd (clickLinkOpeningNewWindow w f s)))) =
     [WaitForEvent PageEvent, Click (Link f)]"
    by (simp add: clickLinkOpeningNewWindow_eq split: option.splits)
  have g: "take 2 (drop (length (calls s)) (calls (snd (uploadViaFileChooser w FileUploadPage f s)))) =
     [WaitForEvent FileChooserEvent, Click (dropZone FileUploadPage)]"
    by (simp add: uploadViaFileChooser_eq dropZone_FileUploadPage split: option.splits)
  from a b c d e g show ?thesis by blast
qed

theorem listener_registered_before_click_witness:
  "downloadFileByName demo_world ''some-file.txt'' fresh_browser =
     (Inr ''download-1'',
      \<lparr>promises = [(DownloadEvent, Some ''download-1'')],
       calls = [WaitForEvent DownloadEvent, Click (Link ''some-file.txt''), AwaitEvent 0]\<rparr>) \<and>
   fst (clickLinkOpeningNewWindow demo_world ''Click Here'' fresh_browser) = Inr ''page-2'' \<and>
   calls (snd (clickLinkOpeningNewWindow demo_world ''Click Here'' fresh_browser)) =
     [WaitForEvent PageEvent, Click (Link ''Click Here''), AwaitEvent 0, WaitForLoadState ''page-2''] \<and>
   fst (uploadViaFileChooser demo_world FileUploadPage ''test-upload.txt'' fresh_browser) = Inr () \<and>
   calls (snd (uploadViaFileChooser demo_world FileUploadPage ''test-upload.txt'' fresh_browser)) =
     [WaitForEvent FileChooserEvent, Click (TestId ''file-input''), AwaitEvent 0,
      SetFiles ''chooser-1'' ''/repo/src/fixtures/test-upload.txt'']"
proof -
  have dl: "downloadFileByName demo_world ''some-file.txt'' fresh_browser =
     (Inr ''download-1'',
      \<lparr>promises = [(DownloadEvent, Some ''download-1'')],
       calls = [WaitForEvent DownloadEvent, Click (Link ''some-file.txt''), AwaitEvent 0]\<rparr>)"
    using listener_registered_before_click [where w = demo_world and f = "''some-file.txt''"
        and evs = "[(DownloadEvent, ''download-1'')]" and p = "''download-1''" and s = fresh_browser]
    by (simp add: downloadFileByName_eq demo_world_def fresh_browser_def deliver_def)
  have rest: "fst (clickLinkOpeningNewWindow demo_world ''Click Here'' fresh_browser) = Inr ''page-2'' \<and>
   calls (snd (clickLinkOpeningNewWindow demo_world ''Click Here'' fresh_browser)) =
     [WaitForEvent PageEvent, Click (Link ''Click Here''), AwaitEvent 0, WaitForLoadState ''page-2''] \<and>
   fst (uploadViaFileChooser demo_world FileUploadPage ''test-upload.txt'' fresh_browser) = Inr () \<and>
   calls (snd (uploadViaFileChooser demo_world FileUploadPage ''test-upload.txt'' fresh_browser)) =
     [WaitForEvent FileChooserEvent, Click (TestId ''file-input''), AwaitEvent 0,
      SetFiles ''chooser-1'' ''/repo/src/fixtures/test-upload.txt'']"
    using listener_registered_before_click [where w = demo_world and f = "''Click Here''"
        and evs = "[(PageEvent, ''page-2'')]" and p = "''page-2''" and s = fresh_browser]
      listener_registered_before_click [where w = demo_world and f = "''test-upload.txt''"
        and evs = "[(FileChooserEvent, ''chooser-1'')]" and p = "''chooser-1''" and s = fresh_browser]
    by (simp add: demo_world_def fresh_browser_def dropZone_FileUploadPage)
  from dl rest show ?thesis by blast
qed

text \<open>
  The claim as first stated (the listener's promise is awaited together with the click,
  never after it, and the payload is what the operation returns) fails: the download's
  promise is awaited after the click has been awaited, and the upload returns nothing.
\<close>

theorem joint_await_counterexample:
  "calls (snd (downloadFileByName demo_world ''some-file.txt'' fresh_browser)) =
     [WaitForEvent DownloadEvent, Click (Link ''some-file.txt''), AwaitEvent 0] \<and>
   awaited_after_click (calls (snd (downloadFileByName demo_world ''some-file.txt'' fresh_browser))) \<and>
   uploadViaFileChooser demo_world FileUploadPage ''test-upload.txt'' fresh_browser =
     (Inr (),
      \<lparr>promises = [(FileChooserEvent, Some ''chooser-1'')],
       calls = [WaitForEvent FileChooserEvent, Click (TestId ''file-input''), AwaitEvent 0,
                SetFiles ''chooser-1'' ''/repo/src/fixtures/test-upload.txt'']\<rparr>)"
  by (simp add: downloadFileByName_eq uploadViaFileChooser_eq demo_world_def fresh_browser_def
        deliver_def)

subsection \<open>Timeouts\<close>

lemma download_fails:
  "fst (downloadFileByName w f s) = Inl e \<Longrightarrow>
   fst (downloadAndSave w f savePath s) = Inl e \<and> fst (downloadAndReadText w f s) = Inl e \<and>
   fst (downloadAndReadBuffer w f s) = Inl e"
  by (cases "downloadFileByName w f s")
     (simp add: downloadAndSave_def downloadAndReadText_def downloadAndReadBuffer_def await_def)

lemma download_no_path:
  "fst (downloadFileByName w f s) = Inr p \<Longrightarrow>
   download_path w p = Inr None \<or> download_path w p = Inr (Some []) \<Longrightarrow>
   fst (downloadAndReadText w f s) = Inl (Error ''Download failed - no path returned'') \<and>
   fst (downloadAndReadBuffer w f s) = Inl (Error ''Download failed - no path returned'')"
  by (cases "downloadFileByName w f s")
     (auto simp: downloadAndReadText_def downloadAndReadBuffer_def await_def path_of_def throw_def)

lemma dismissAnyAds_ok: "fst (dismissAnyAds w s) = Inr ()"
  by (simp add: dismissAnyAds_def await_def try_catch_def split: prod.splits sum.splits)

text \<open>
  C7. A rejection of an awaited call is the result of the method that awaited it. A click
  on a link that never appears, or a click that causes no event of the awaited kind, makes
  every download operation, the new-window operation and the upload end in that
  \<open>TimeoutError\<close>; a new page that does not load does the same. A download whose path is
  null or empty makes \<^verbatim>\<open>downloadAndReadText\<close> and \<^verbatim>\<open>downloadAndReadBuffer\<close> fail with the error
  "Download failed - no path returned" instead of returning a value. Only the ad-dismissal
  helper, a best-effort clean-up, drops the errors of its clicks and always succeeds.
\<close>

theorem timeouts_reach_the_caller:
  "(fst (m s) = Inl e \<longrightarrow> fst (await m g s) = Inl e) \<and>
   (on_click w (Link f) = None \<or> (on_click w (Link f) = Some evs \<and> map_of evs DownloadEvent = None) \<longrightarrow>
      fst (downloadFileByName w f s) = Inl TimeoutError \<and>
      fst (downloadAndSave w f savePath s) = Inl TimeoutError \<and>
      fst (downloadAndReadText w f s) = Inl TimeoutError \<and>
      fst (downloadAndReadBuffer w f s) = Inl TimeoutError) \<and>
   (on_click w (Link f) = None \<or> (on_click w (Link f) = Some evs \<and> map_of evs PageEvent = None) \<or>
    (on_click w (Link f) = Some evs \<and> map_of evs PageEvent = Some p \<and> \<not> page_loads w p) \<longrightarrow>
      fst (clickLinkOpeningNewWindow w f s) = Inl TimeoutError) \<and>
   (on_click w (dropZone FileUploadPage) = None \<or>
    (on_click w (dropZone FileUploadPage) = Some evs \<and> map_of evs FileChooserEvent = None) \<longrightarrow>
      fst (uploadViaFileChooser w FileUploadPage f s) = Inl TimeoutError) \<and>
   (on_click w (Link f) = Some evs \<and> map_of evs DownloadEvent = Some p \<and>
    (download_path w p = Inr None \<or> download_path w p = Inr (Some [])) \<longrightarrow>
      fst (downloadAndReadText w f s) = Inl (Error ''Download failed - no path returned'') \<and>
      fst (downloadAndReadBuffer w f s) = Inl (Error ''Download failed - no path returned'')) \<and>
   fst (dismissAnyAds w s) = Inr ()"
proof -
  have a: "fst (m s) = Inl e \<longrightarrow> fst (await m g s) = Inl e"
    by (cases "m s") (simp add: await_def)
  have b: "on_click w (Link f) = None \<or> (on_click w (Link f) = Some evs \<and> map_of evs DownloadEvent = None) \<longrightarrow>
      fst (downloadFileByName w f s) = Inl TimeoutError \<and>
      fst (downloadAndSave w f savePath s) = Inl TimeoutError \<and>
      fst (downloadAndReadText w f s) = Inl TimeoutError \<and>
      fst (downloadAndReadBuffer w f s) = Inl TimeoutError"
  proof (intro impI)
    assume "on_click w (Link f) = None \<or> (on_click w (Link f) = Some evs \<and> map_of evs DownloadEvent = None)"
    then have "fst (downloadFileByName w f s) = Inl TimeoutError"
      by (auto simp: downloadFileByName_eq)
    then show "fst (downloadFileByName w f s) = Inl TimeoutError \<and>
      fst (downloadAndSave w f savePath s) = Inl TimeoutError \<and>
      fst (downloadAndReadText w f s) = Inl TimeoutError \<and>
      fst (downloadAndReadBuffer w f s) = Inl TimeoutError"
      using download_fails by blast
  qed
  have c: "on_click w (Link f) = None \<or> (on_click w (Link f) = Some evs \<and> map_of evs PageEvent = None) \<or>
    (on_click w (Link f) = Some evs \<and> map_of evs PageEvent = Some p \<and> \<not> page_loads w p) \<longrightarrow>
      fst (clickLinkOpeningNewWindow w f s) = Inl TimeoutError"
    by (auto simp: clickLinkOpeningNewWindow_eq)
  have d: "on_click w (dropZone FileUploadPage) = None \<or>
    (on_click w (dropZone FileUploadPage) = Some evs \<and> map_of evs FileChooserEvent = None) \<longrightarrow>
      fst (uploadViaFileChooser w FileUploadPage f s) = Inl TimeoutError"
    by (auto simp: uploadViaFileChooser_eq dropZone_FileUploadPage)
  have e: "on_click w (Link f) = Some evs \<and> map_of evs DownloadEvent = Some p \<and>
    (download_path w p = Inr None \<or> download_path w p = Inr (Some [])) \<longrightarrow>
      fst (downloadAndReadText w f s) = Inl (Error ''Download failed - no path returned'') \<and>
      fst (downloadAndReadBuffer w f s) = Inl (Error ''Download failed - no path returned'')"
  proof (intro impI)
    assume h: "on_click w (Link f) = Some evs \<and> map_of evs DownloadEvent = Some p \<and>
      (download_path w p = Inr None \<or> download_path w p = Inr (Some []))"
    then have dl: "fst (downloadFileByName w f s) = Inr p" by (simp add: downloadFileByName_eq)
    from h have np: "download_path w p = Inr None \<or> download_path w p = Inr (Some [])" by simp
    show "fst (downloadAndReadText w f s) = Inl (Error ''Download failed - no path returned'') \<and>
      fst (downloadAndReadBuffer w f s) = Inl (Error ''Download failed - no path returned'')"
      by (rule download_no_path [OF dl np])
  qed
  from a b c d e dismissAnyAds_ok show ?thesis by blast
qed

theorem timeouts_reach_the_caller_witness:
  "fst (downloadFileByName demo_world ''missing.txt'' fresh_browser) = Inl TimeoutError \<and>
   fst (downloadAndReadText demo_world ''missing.txt'' fresh_browser) = Inl TimeoutError \<and>
   fst (downloadAndSave demo_world ''about'' ''/tmp/x'' fresh_browser) = Inl TimeoutError \<and>
   fst (clickLinkOpeningNewWindow demo_world ''about'' fresh_browser) = Inl TimeoutError \<and>
   fst (downloadAndReadText demo_world ''broken.bin'' fresh_browser) =
     Inl (Error ''Download failed - no path returned'') \<and>
   fst (dismissAnyAds demo_world fresh_browser) = Inr () \<and>
   on_click demo_world (FrameButton ''close ad'') = None"
proof -
  have h1: "on_click demo_world (Link ''missing.txt'') = None"
    by (simp add: demo_world_def)
  have h2: "on_click demo_world (Link ''about'') = Some [] \<and> map_of [] DownloadEvent = (None :: string option)
      \<and> map_of [] PageEvent = (None :: string option)"
    by (simp add: demo_world_def)
  have h3: "on_click demo_world (Link ''broken.bin'') = Some [(DownloadEvent, ''download-2'')] \<and>
      map_of [(DownloadEvent, ''download-2'')] DownloadEvent = Some ''download-2'' \<and>
      download_path demo_world ''download-2'' = Inr None"
    by (simp add: demo_world_def)
  have h4: "on_click demo_world (FrameButton ''close ad'') = None"
    by (simp add: demo_world_def)
  have a: "fst (downloadFileByName demo_world ''missing.txt'' fresh_browser) = Inl TimeoutError \<and>
     fst (downloadAndReadText demo_world ''missing.txt'' fresh_browser) = Inl TimeoutError"
    using h1 timeouts_reach_the_caller [where w = demo_world and f = "''missing.txt''"
        and s = fresh_browser and evs = "[]"]
    by blast
  have b: "fst (downloadAndSave demo_world ''about'' ''/tmp/x'' fresh_browser) = Inl TimeoutError \<and>
     fst (clickLinkOpeningNewWindow demo_world ''about'' fresh_browser) = Inl TimeoutError"
    using h2 timeouts_reach_the_caller [where w = demo_world and f = "''about''"
        and s = fresh_browser and evs = "[]" and savePath = "''/tmp/x''"]
    by blast
  have c: "fst (downloadAndReadText demo_world ''broken.bin'' fresh_browser) =
     Inl (Error ''Download failed - no path returned'') \<and>
     fst (dismissAnyAds demo_world fresh_browser) = Inr ()"
    using h3 timeouts_reach_the_caller [where w = demo_world and f = "''broken.bin''"
        and s = fresh_browser and evs = "[(DownloadEvent, ''download-2'')]" and p = "''download-2''"]
    by blast
  from a b c h4 show ?thesis by blast
qed

subsection \<open>Switching windows\<close>

text \<open>
  C8. \<^verbatim>\<open>switchToWindow(index)\<close> throws exactly when the index is at least the number of open
  pages. For a negative index it does not throw and returns \<^verbatim>\<open>undefined\<close>; for an index
  inside the array it returns that page.
\<close>

theorem switchToWindow_checks_upper_bound_only:
  "((\<exists>e. switchToWindow pages index = Inl e) \<longleftrightarrow> int (length pages) \<le> index) \<and>
   (index < 0 \<longrightarrow> switchToWindow pages index = Inr None) \<and>
   (0 \<le> index \<and> index < int (length pages) \<longrightarrow>
      switchToWindow pages index = Inr (Some (pages ! nat index)))"
  by (auto simp: switchToWindow_def js_at_def)

theorem switchToWindow_checks_upper_bound_only_witness:
  "switchToWindow [''main'', ''popup''] (- 1) = Inr None \<and>
   switchToWindow [''main'', ''popup''] 1 = Inr (Some ''popup'') \<and>
   (\<exists>e. switchToWindow [''main'', ''popup''] 2 = Inl e)"
  using switchToWindow_checks_upper_bound_only [of "[''main'', ''popup'']" "- 1"]
    switchToWindow_checks_upper_bound_only [of "[''main'', ''popup'']" 1]
    switchToWindow_checks_upper_bound_only [of "[''main'', ''popup'']" 2]
  by simp

section \<open>Properties of drag and drop\<close>

lemma dragAtoB_eq:
  "dragAtoB DragDropPage s = (Inr (), s\<lparr>column_a := column_b s, column_b := column_a s\<rparr>)"
  by (simp add: dragAtoB_def DragDropPage_def dragTo_def is_slot_def drop_on_def await_def ret_def)

lemma dragBtoA_eq:
  "dragBtoA DragDropPage s = (Inr (), s\<lparr>column_a := column_b s, column_b := column_a s\<rparr>)"
  by (simp add: dragBtoA_def DragDropPage_def dragTo_def is_slot_def drop_on_def await_def ret_def)

lemma getColumnAText_eq: "getColumnAText DragDropPage s = (Inr (column_a s), s)"
  by (simp add: getColumnAText_def DragDropPage_def slotTextContent_def await_def ret_def or_else_def)

lemma getColumnBText_eq: "getColumnBText DragDropPage s = (Inr (column_b s), s)"
  by (simp add: getColumnBText_def DragDropPage_def slotTextContent_def await_def ret_def or_else_def)

text \<open>
  C4. Dragging A onto B exchanges the texts of the two slots: afterwards slot A shows what
  slot B showed and slot B what slot A showed. The drag of B onto A after it restores the
  state exactly. On a pair that has been swapped, two more drags of A onto B in a row lead
  back to that swapped state, while a single further drag does not leave it unchanged when
  the two texts differ: the drag is not idempotent. Dragging a slot onto itself changes
  nothing.
\<close>

theorem drag_swaps_texts:
  "fst (getColumnAText DragDropPage (snd (dragAtoB DragDropPage s))) =
     fst (getColumnBText DragDropPage s) \<and>
   fst (getColumnBText DragDropPage (snd (dragAtoB DragDropPage s))) =
     fst (getColumnAText DragDropPage s) \<and>
   fst (dragAtoB DragDropPage s) = Inr () \<and>
   snd (dragBtoA DragDropPage (snd (dragAtoB DragDropPage s))) = s \<and>
   snd (dragAtoB DragDropPage (snd (dragAtoB DragDropPage (snd (dragAtoB DragDropPage s))))) =
     snd (dragAtoB DragDropPage s) \<and>
   (column_a s \<noteq> column_b s \<longrightarrow>
      snd (dragAtoB DragDropPage (snd (dragAtoB DragDropPage s))) \<noteq> snd (dragAtoB DragDropPage s)) \<and>
   snd (dragToTarget (columnA DragDropPage) (columnA DragDropPage) s) = s"
proof -
  have ne: "column_a s \<noteq> column_b s \<longrightarrow>
      snd (dragAtoB DragDropPage (snd (dragAtoB DragDropPage s))) \<noteq> snd (dragAtoB DragDropPage s)"
  proof (intro impI notI)
    assume d: "column_a s \<noteq> column_b s"
    assume "snd (dragAtoB DragDropPage (snd (dragAtoB DragDropPage s))) = snd (dragAtoB DragDropPage s)"
    then have "column_a (snd (dragAtoB DragDropPage (snd (dragAtoB DragDropPage s)))) =
               column_a (snd (dragAtoB DragDropPage s))"
      by simp
    then show False using d by (simp add: dragAtoB_eq)
  qed
  have self: "snd (dragToTarget (columnA DragDropPage) (columnA DragDropPage) s) = s"
    by (simp add: dragToTarget_def DragDropPage_def dragTo_def is_slot_def drop_on_def await_def ret_def)
  show ?thesis
    using ne self
    by (simp add: dragAtoB_eq dragBtoA_eq getColumnAText_eq getColumnBText_eq)
qed

theorem drag_swaps_texts_witness:
  "dragAtoB DragDropPage \<lparr>column_a = ''A'', column_b = ''B''\<rparr> =
     (Inr (), \<lparr>column_a = ''B'', column_b = ''A''\<rparr>) \<and>
   snd (dragAtoB DragDropPage (snd (dragAtoB DragDropPage \<lparr>column_a = ''A'', column_b = ''B''\<rparr>))) \<noteq>
     snd (dragAtoB DragDropPage \<lparr>column_a = ''A'', column_b = ''B''\<rparr>) \<and>
   snd (dragBtoA DragDropPage (snd (dragAtoB DragDropPage \<lparr>column_a = ''A'', column_b = ''B''\<rparr>))) =
     \<lparr>column_a = ''A'', column_b = ''B''\<rparr>"
proof -
  have "column_a \<lparr>column_a = ''A'', column_b = ''B''\<rparr> \<noteq> column_b \<lparr>column_a = ''A'', column_b = ''B''\<rparr>"
    by simp
  then show ?thesis
    using drag_swaps_texts [of "\<lparr>column_a = ''A'', column_b = ''B''\<rparr>"]
    by (simp add: dragAtoB_eq)
qed

end
